theory Spec2Isabelle
  imports Main
begin

section \<open>The GameDistribution plugin for AdLad (src/mod.js)\<close>

text \<open>
  The plugin is a closure over four variables (\<open>resolveInitialize\<close>, \<open>rewardReceived\<close>,
  \<open>didShowAd\<close>, \<open>pluginContext\<close>) and talks to two collaborators: the host context
  \<open>ctx\<close> (\<open>setNeedsPause\<close>, \<open>setNeedsMute\<close>) and the SDK (\<open>window.GD_OPTIONS\<close>,
  \<open>window.gdsdk\<close>). JavaScript runs one task at a time and each task runs to completion
  together with the promise reactions it triggers, so the model is a state machine: a
  \<open>session\<close> holds the closure variables, the window globals and the host flags, an
  \<open>ad_request\<close> holds the locals and promises of one call of \<open>safeShowAd\<close>, and every
  stimulus from outside (an SDK event, the settlement of a promise of the SDK or of the
  module loader, the expiry of the timer) is one step.

  The ambient declarations give \<open>window.gdsdk\<close> as always present and \<open>event.name\<close>
  as a string, and the model follows them; \<open>openConsole\<close> and the setters of the host
  are taken to return normally. One full-screen or rewarded request is outstanding at a
  time, so the stimuli that reach a request do not contain the start of another one.
\<close>

subsection \<open>Values, promises and results\<close>

text \<open>
  What the SDK may throw or reject with. The plugin inspects such a value only through
  \<open>e == "The advertisement was requested too soon."\<close>, a loose comparison with a
  string that is not numeric: it holds for the primitive string itself and for an object
  whose conversion to a primitive yields that string (a \<open>String\<close> object, an \<open>Error\<close>
  through \<open>toString\<close>), and for nothing else. \<open>JObject i str\<close> is the object with
  identity \<open>i\<close> that converts to \<open>str\<close>; \<open>JOther i\<close> stands for every value that
  does not convert to a string (undefined, null, booleans, numbers, symbols).
  The conversion of an object can itself throw: the engine throws a \<open>TypeError\<close> for
  an object without \<open>toString\<close> and \<open>valueOf\<close> (\<open>Object.create(null)\<close>), and a
  \<open>toString\<close> or \<open>valueOf\<close> of the object may throw anything. \<open>JThrowing i v\<close> is
  the object with identity \<open>i\<close> whose conversion throws \<open>v\<close>; comparing it throws
  \<open>v\<close>.
\<close>

datatype js_value = JString string | JObject nat string | JOther nat | JThrowing nat js_value

datatype failure =
    DuplicateInitialization  \<comment> \<open>\<open>new Error("GameDistribution plugin is being initialized more than once")\<close>\<close>
  | TypeError                \<comment> \<open>calling \<open>resolveInitialize\<close> while it is undefined\<close>
  | Thrown js_value          \<comment> \<open>a value thrown by the SDK or the module loader, passed on as it is\<close>

datatype 'a promise = Pending | Fulfilled 'a | Rejected failure

datatype GdAdType = Display | Interstitial | Rewarded

datatype error_reason = TimeConstraint | Unknown

text \<open>\<open>errorReason: null\<close> is \<open>None\<close>.\<close>

record ShowFullScreenAdResult =
  res_didShowAd :: bool
  res_errorReason :: "error_reason option"

subsection \<open>The host context and the window\<close>

type_synonym ctx = nat

record host_flags =
  needsPause :: bool
  needsMute :: bool

text \<open>
  \<open>window.GD_OPTIONS\<close>: the game id and the \<open>onEvent\<close> closure, which captures the
  \<open>ctx\<close> argument of the call of \<open>initialize\<close> that created it.
\<close>

record gd_options =
  opt_gameId :: string
  onEvent_ctx :: ctx

datatype sdk_call =
    ImportModule string
  | ShowAd GdAdType "string option"
  | OpenConsole

datatype init_task = NotCalled | AwaitImport | AwaitReady | InitFulfilled | InitRejected failure

text \<open>
  \<open>init_task\<close> is the position of the one call of \<open>initialize\<close> that passed the guard,
  and with it the state of the promise that call returned; \<open>initialize_resolutions\<close>
  counts how often that promise has been fulfilled. \<open>host\<close> is the store of host context
  objects, \<open>sdk_calls\<close> the calls made to the module loader and to \<open>window.gdsdk\<close>, in
  order. \<open>gd_debug_ex\<close> is the truthiness of \<open>localStorage.gd_debug_ex\<close>.
\<close>

record session =
  gameId :: string
  debug :: bool
  resolveInitialize :: "unit option"
  rewardReceived :: bool
  didShowAd :: bool
  pluginContext :: "ctx option"
  GD_OPTIONS :: "gd_options option"
  gd_debug_ex :: bool
  host :: "ctx \<Rightarrow> host_flags"
  sdk_calls :: "sdk_call list"
  init_task :: init_task
  initialize_resolutions :: nat

subsection \<open>gameDistributionPlugin\<close>

fun includes_str :: "string \<Rightarrow> string \<Rightarrow> bool" where
  "includes_str [] sub = (sub = [])"
| "includes_str (x # xs) sub = (take (length sub) (x # xs) = sub \<or> includes_str xs sub)"

definition sdkUrl :: string where
  "sdkUrl = ''https://html5.api.gamedistribution.com/main.min.js''"

text \<open>
  The plugin as created by \<open>gameDistributionPlugin({gameId, debug})\<close> on a page at
  \<open>hostname\<close> whose local storage flag is \<open>ls\<close> and whose host context objects are
  \<open>h\<close>: no \<open>GD_OPTIONS\<close> yet, nothing initialised.
\<close>

definition gameDistributionPlugin ::
    "string \<Rightarrow> bool option \<Rightarrow> string \<Rightarrow> bool \<Rightarrow> (ctx \<Rightarrow> host_flags) \<Rightarrow> session" where
  "gameDistributionPlugin gid dbg hostname ls h =
     \<lparr> gameId = gid,
       debug = (case dbg of None \<Rightarrow> includes_str hostname ''localhost'' | Some d \<Rightarrow> d),
       resolveInitialize = None,
       rewardReceived = False,
       didShowAd = False,
       pluginContext = None,
       GD_OPTIONS = None,
       gd_debug_ex = ls,
       host = h,
       sdk_calls = [],
       init_task = NotCalled,
       initialize_resolutions = 0 \<rparr>"

subsection \<open>The host's setters\<close>

definition setNeedsPause :: "ctx \<Rightarrow> bool \<Rightarrow> session \<Rightarrow> session" where
  "setNeedsPause c v s = s\<lparr>host := (host s)(c := (host s c)\<lparr>needsPause := v\<rparr>)\<rparr>"

definition setNeedsMute :: "ctx \<Rightarrow> bool \<Rightarrow> session \<Rightarrow> session" where
  "setNeedsMute c v s = s\<lparr>host := (host s)(c := (host s c)\<lparr>needsMute := v\<rparr>)\<rparr>"

subsection \<open>initialize and the event handler\<close>

text \<open>
  The synchronous part of \<open>initialize(ctx)\<close>, up to \<open>await import(sdkUrl)\<close>. \<open>Inl e\<close>:
  the returned promise is already rejected with \<open>e\<close>; \<open>Inr ()\<close>: the call is suspended
  on the import.
\<close>

definition initialize :: "ctx \<Rightarrow> session \<Rightarrow> (failure + unit) \<times> session" where
  "initialize c s =
     (if GD_OPTIONS s \<noteq> None then (Inl DuplicateInitialization, s)
      else (Inr (),
            s\<lparr> pluginContext := Some c,
               GD_OPTIONS := Some \<lparr> opt_gameId = gameId s, onEvent_ctx = c \<rparr>,
               sdk_calls := sdk_calls s @ [ImportModule sdkUrl],
               init_task := AwaitImport \<rparr>))"

text \<open>
  The promise of \<open>import(sdkUrl)\<close> settles: rejected with \<open>e\<close> (\<open>Some e\<close>), which rejects
  \<open>initialize\<close>, or fulfilled (\<open>None\<close>), after which \<open>initialize\<close> creates the promise
  whose resolver it stores in \<open>resolveInitialize\<close> and suspends on it.
\<close>

definition import_settles :: "js_value option \<Rightarrow> session \<Rightarrow> session" where
  "import_settles err s =
     (if init_task s \<noteq> AwaitImport then s
      else (case err of
              Some e \<Rightarrow> s\<lparr>init_task := InitRejected (Thrown e)\<rparr>
            | None \<Rightarrow> s\<lparr>resolveInitialize := Some (), init_task := AwaitReady\<rparr>))"

text \<open>
  \<open>resolveInitialize()\<close> where it is a function: resolving a promise that is already
  resolved does nothing; otherwise \<open>initialize\<close> resumes after \<open>await promise\<close>, opens
  the console when \<open>debug\<close> is set and the storage flag is not, and returns.
\<close>

definition call_resolveInitialize :: "session \<Rightarrow> session" where
  "call_resolveInitialize s =
     (if init_task s \<noteq> AwaitReady then s
      else (let s1 = (if debug s \<and> \<not> gd_debug_ex s
                      then s\<lparr>sdk_calls := sdk_calls s @ [OpenConsole]\<rparr> else s)
            in s1\<lparr> init_task := InitFulfilled,
                   initialize_resolutions := initialize_resolutions s1 + 1 \<rparr>))"

text \<open>
  \<open>onEvent(event)\<close> of the options object created with context \<open>c\<close>, on \<open>event.name\<close>.
  \<open>Inl e\<close>: the handler threw \<open>e\<close> (nothing was changed before).
\<close>

definition onEvent :: "ctx \<Rightarrow> string \<Rightarrow> session \<Rightarrow> failure + session" where
  "onEvent c name s =
     (if name = ''SDK_READY'' then
        (case resolveInitialize s of
           None \<Rightarrow> Inl TypeError
         | Some _ \<Rightarrow> Inr (call_resolveInitialize s))
      else if name = ''SDK_GAME_PAUSE'' then
        Inr (setNeedsMute c True (setNeedsPause c True s))
      else if name = ''SDK_GAME_START'' then
        Inr (setNeedsPause c False (setNeedsMute c False s))
      else if name = ''SDK_REWARDED_WATCH_COMPLETE'' then
        Inr (s\<lparr>rewardReceived := True\<rparr>)
      else if name = ''IMPRESSION'' then
        Inr (s\<lparr>didShowAd := True\<rparr>)
      else Inr s)"

text \<open>
  The SDK delivers an event: it calls \<open>window.GD_OPTIONS.onEvent\<close> when the options
  object is there; an exception of the handler goes back to the SDK.
\<close>

definition deliver :: "string \<Rightarrow> session \<Rightarrow> session" where
  "deliver name s =
     (case GD_OPTIONS s of
        None \<Rightarrow> s
      | Some opts \<Rightarrow> (case onEvent (onEvent_ctx opts) name s of Inl _ \<Rightarrow> s | Inr s' \<Rightarrow> s'))"

text \<open>The SDK delivers several events, one after the other.\<close>

fun deliver_all :: "string list \<Rightarrow> session \<Rightarrow> session" where
  "deliver_all [] s = s"
| "deliver_all (name # names) s = deliver_all names (deliver name s)"

subsection \<open>safeShowAd\<close>

text \<open>
  How \<open>window.gdsdk.showAd(type)\<close> answers the call itself: it throws, or it returns a
  promise that is still pending (\<open>Returns None\<close>), or it returns something already
  settled (\<open>Returns (Some st)\<close>; a plain value counts as fulfilled). A pending promise is
  settled later by the stimulus \<open>SdkSettles\<close> or \<open>SdkSettlesThen\<close>. Events that the
  SDK delivers while the call runs are not part of the answer: the call stands under
  \<open>await\<close> in a \<open>try\<close> block, so a call that delivers events and then throws or
  returns something settled is the call that returns a pending promise, followed by
  these events and by the settlement.
\<close>

datatype settle = Resolves | Rejects js_value

datatype sdk_reply = Throws js_value | Returns "settle option"

definition too_soon :: string where
  "too_soon = ''The advertisement was requested too soon.''"

text \<open>
  \<open>e == "The advertisement was requested too soon."\<close>: \<open>Inr\<close> its value, \<open>Inl v\<close>
  when the comparison throws \<open>v\<close>.
\<close>

fun equals_too_soon :: "js_value \<Rightarrow> js_value + bool" where
  "equals_too_soon (JString str) = Inr (str = too_soon)"
| "equals_too_soon (JObject i str) = Inr (str = too_soon)"
| "equals_too_soon (JOther i) = Inr False"
| "equals_too_soon (JThrowing i v) = Inl v"

text \<open>
  The inner \<open>showAd\<close>: what its promise becomes once the awaited SDK call has settled.
  The comparison stands in the \<open>catch\<close> block, so what it throws rejects the promise
  in place of \<open>e\<close>.
\<close>

fun showAd :: "settle \<Rightarrow> ShowFullScreenAdResult option promise" where
  "showAd Resolves = Fulfilled None"
| "showAd (Rejects e) =
     (case equals_too_soon e of
        Inl v \<Rightarrow> Rejected (Thrown v)
      | Inr b \<Rightarrow>
          if b
          then Fulfilled (Some \<lparr> res_didShowAd = False, res_errorReason = Some TimeConstraint \<rparr>)
          else Rejected (Thrown e))"

datatype public_op = ShowFullScreenAd | ShowRewardedAd

text \<open>
  One call of \<open>showFullScreenAd\<close> or \<open>showRewardedAd\<close>: \<open>showAdPromise\<close> and
  \<open>timeoutPromise\<close> as in \<open>safeShowAd\<close>, \<open>timer_armed\<close> while the callback given to
  \<open>setTimeout\<close> (with delay \<open>timeout_ms\<close>) has not run, \<open>racePromise\<close> the promise of
  \<open>Promise.race\<close>, \<open>safeShowAdPromise\<close> the promise \<open>safeShowAd\<close> returned and
  \<open>publicPromise\<close> the one the host holds.
\<close>

record ad_request =
  caller :: public_op
  showAdPromise :: "ShowFullScreenAdResult option promise"
  timeoutPromise :: "ShowFullScreenAdResult option promise"
  timer_armed :: bool
  timeout_ms :: nat
  racePromise :: "ShowFullScreenAdResult option promise"
  safeShowAdPromise :: "ShowFullScreenAdResult option promise"
  publicPromise :: "ShowFullScreenAdResult promise"

definition reset_pause_mute :: "session \<Rightarrow> session" where
  "reset_pause_mute s =
     (case pluginContext s of
        None \<Rightarrow> s
      | Some c \<Rightarrow> setNeedsPause c False (setNeedsMute c False s))"

text \<open>The object the public operation builds when \<open>safeShowAd\<close> returned null.\<close>

fun derived_result :: "public_op \<Rightarrow> session \<Rightarrow> ShowFullScreenAdResult" where
  "derived_result ShowFullScreenAd s = \<lparr> res_didShowAd = didShowAd s, res_errorReason = None \<rparr>"
| "derived_result ShowRewardedAd s = \<lparr> res_didShowAd = rewardReceived s, res_errorReason = None \<rparr>"

text \<open>
  One of the two raced promises has settled as \<open>p\<close>. If the race is still open it settles
  the same way and \<open>safeShowAd\<close> resumes after \<open>await Promise.race(...)\<close>: on a rejection
  the \<open>await\<close> throws, so \<open>safeShowAd\<close> and the public operation reject with the same
  value; on a fulfilment \<open>safeShowAd\<close> resets pause and mute and returns the value, and
  the public operation returns it, or the derived result when it is null. A later
  settlement of the other promise is not observed.
\<close>

definition settle_race ::
    "ShowFullScreenAdResult option promise \<Rightarrow> session \<times> ad_request \<Rightarrow> session \<times> ad_request" where
  "settle_race p sr =
     (case sr of (s, r) \<Rightarrow>
        if racePromise r \<noteq> Pending then (s, r)
        else (case p of
                Pending \<Rightarrow> (s, r)
              | Rejected e \<Rightarrow>
                  (s, r\<lparr> racePromise := Rejected e,
                         safeShowAdPromise := Rejected e,
                         publicPromise := Rejected e \<rparr>)
              | Fulfilled x \<Rightarrow>
                  (let s' = reset_pause_mute s in
                   (s', r\<lparr> racePromise := Fulfilled x,
                           safeShowAdPromise := Fulfilled x,
                           publicPromise :=
                             Fulfilled (case x of
                                          Some res \<Rightarrow> res
                                        | None \<Rightarrow> derived_result (caller r) s') \<rparr>))))"

text \<open>
  \<open>safeShowAd(type)\<close> called from \<open>who\<close>, up to \<open>await Promise.race(...)\<close>, and the
  reactions that run before the task ends when the SDK call has already settled.
\<close>

definition safeShowAd ::
    "public_op \<Rightarrow> GdAdType \<Rightarrow> sdk_reply \<Rightarrow> session \<Rightarrow> session \<times> ad_request" where
  "safeShowAd who ty reply s =
     (let s1 = s\<lparr> didShowAd := False, sdk_calls := sdk_calls s @ [ShowAd ty None] \<rparr>;
          p = (case reply of
                 Throws e \<Rightarrow> showAd (Rejects e)
               | Returns None \<Rightarrow> Pending
               | Returns (Some st) \<Rightarrow> showAd st);
          r = \<lparr> caller = who,
                showAdPromise = p,
                timeoutPromise = Pending,
                timer_armed = True,
                timeout_ms = 5000,
                racePromise = Pending,
                safeShowAdPromise = Pending,
                publicPromise = Pending \<rparr>
      in settle_race p (s1, r))"

definition showFullScreenAd :: "sdk_reply \<Rightarrow> session \<Rightarrow> session \<times> ad_request" where
  "showFullScreenAd reply s = safeShowAd ShowFullScreenAd Interstitial reply s"

definition showRewardedAd :: "sdk_reply \<Rightarrow> session \<Rightarrow> session \<times> ad_request" where
  "showRewardedAd reply s =
     safeShowAd ShowRewardedAd Rewarded reply (s\<lparr>rewardReceived := False\<rparr>)"

text \<open>
  The promise the SDK returned from \<open>showAd\<close> has settled and the task in which it did
  so has ended: the reactions of the plugin run.
\<close>

definition sdk_settles :: "settle \<Rightarrow> session \<times> ad_request \<Rightarrow> session \<times> ad_request" where
  "sdk_settles st sr =
     (case sr of (s, r) \<Rightarrow>
        if showAdPromise r \<noteq> Pending then (s, r)
        else settle_race (showAd st) (s, r\<lparr>showAdPromise := showAd st\<rparr>))"

text \<open>The callback given to \<open>setTimeout\<close> runs.\<close>

definition timer_fires :: "session \<times> ad_request \<Rightarrow> session \<times> ad_request" where
  "timer_fires sr =
     (case sr of (s, r) \<Rightarrow>
        if \<not> timer_armed r then (s, r)
        else if didShowAd s then (s, r\<lparr>timer_armed := False\<rparr>)
        else (let x = Some \<lparr> res_didShowAd = False, res_errorReason = Some Unknown \<rparr>
              in settle_race (Fulfilled x)
                   (s, r\<lparr>timer_armed := False, timeoutPromise := Fulfilled x\<rparr>)))"

subsection \<open>showBannerAd\<close>

text \<open>
  \<open>showBannerAd(options)\<close> is not an async function: an exception of the SDK call is
  thrown to the caller (\<open>Inl\<close>), otherwise nothing is returned and what the SDK returned
  is dropped.
\<close>

definition showBannerAd :: "string \<Rightarrow> sdk_reply \<Rightarrow> session \<Rightarrow> (failure + unit) \<times> session" where
  "showBannerAd containerId reply s =
     (let s' = s\<lparr>sdk_calls := sdk_calls s @ [ShowAd Display (Some containerId)]\<rparr>
      in (case reply of Throws e \<Rightarrow> (Inl (Thrown e), s') | Returns _ \<Rightarrow> (Inr (), s')))"

subsection \<open>Stimuli\<close>

text \<open>
  Every stimulus is one task. The reactions to a settled promise run when the task that
  settled it ends, so the SDK can settle the promise of \<open>showAd\<close> and, before it gives
  up control, still deliver events, which the handler processes at once and before
  \<open>safeShowAd\<close> resumes: that is \<open>SdkSettlesThen st names\<close>; \<open>SdkSettles st\<close> is the
  case without such events. The callback of the timer and the handler are the plugin's
  own code, and nothing of the SDK runs between them and the reactions they trigger.
\<close>

datatype stimulus =
    Event string
  | ImportSettles "js_value option"
  | TimerFires
  | SdkSettles settle
  | SdkSettlesThen settle "string list"

fun session_step :: "stimulus \<Rightarrow> session \<Rightarrow> session" where
  "session_step (Event name) s = deliver name s"
| "session_step (ImportSettles err) s = import_settles err s"
| "session_step TimerFires s = s"
| "session_step (SdkSettles st) s = s"
| "session_step (SdkSettlesThen st names) s = deliver_all names s"

fun step :: "stimulus \<Rightarrow> session \<times> ad_request \<Rightarrow> session \<times> ad_request" where
  "step TimerFires sr = timer_fires sr"
| "step (SdkSettles st) sr = sdk_settles st sr"
| "step (SdkSettlesThen st names) sr = sdk_settles st (deliver_all names (fst sr), snd sr)"
| "step (Event name) sr = (deliver name (fst sr), snd sr)"
| "step (ImportSettles err) sr = (import_settles err (fst sr), snd sr)"

fun session_run :: "stimulus list \<Rightarrow> session \<Rightarrow> session" where
  "session_run [] s = s"
| "session_run (x # xs) s = session_run xs (session_step x s)"

fun run :: "stimulus list \<Rightarrow> session \<times> ad_request \<Rightarrow> session \<times> ad_request" where
  "run [] sr = sr"
| "run (x # xs) sr = run xs (step x sr)"

fun is_sdk_settle :: "stimulus \<Rightarrow> bool" where
  "is_sdk_settle (SdkSettles st) = True"
| "is_sdk_settle (SdkSettlesThen st names) = True"
| "is_sdk_settle _ = False"

text \<open>The names of the events a stimulus delivers to the handler.\<close>

fun delivered :: "stimulus \<Rightarrow> string list" where
  "delivered (Event name) = [name]"
| "delivered (SdkSettlesThen st names) = names"
| "delivered _ = []"

fun is_import_settle :: "stimulus \<Rightarrow> bool" where
  "is_import_settle (ImportSettles err) = True"
| "is_import_settle _ = False"

subsection \<open>Predicates and constants used to state the properties\<close>

definition unknown_result :: ShowFullScreenAdResult where
  "unknown_result = \<lparr> res_didShowAd = False, res_errorReason = Some Unknown \<rparr>"

definition time_constraint_result :: ShowFullScreenAdResult where
  "time_constraint_result = \<lparr> res_didShowAd = False, res_errorReason = Some TimeConstraint \<rparr>"

text \<open>Nothing of the request has settled yet.\<close>

definition open_request :: "ad_request \<Rightarrow> bool" where
  "open_request r =
     (showAdPromise r = Pending \<and> racePromise r = Pending \<and>
      safeShowAdPromise r = Pending \<and> publicPromise r = Pending)"

text \<open>
  The invariant of a request: the race, \<open>safeShowAd\<close> and the public operation settle
  together, and what \<open>safeShowAd\<close> returns is null or one of the two failure objects.
\<close>

definition request_ok :: "ad_request \<Rightarrow> bool" where
  "request_ok r =
     (case safeShowAdPromise r of
        Pending \<Rightarrow> racePromise r = Pending \<and> publicPromise r = Pending
      | Fulfilled None \<Rightarrow>
          racePromise r = Fulfilled None \<and>
          (case publicPromise r of Fulfilled res \<Rightarrow> res_errorReason res = None | _ \<Rightarrow> False)
      | Fulfilled (Some res) \<Rightarrow>
          racePromise r = Fulfilled (Some res) \<and> publicPromise r = Fulfilled res \<and>
          (res = time_constraint_result \<or> res = unknown_result)
      | Rejected e \<Rightarrow> racePromise r = Rejected e \<and> publicPromise r = Rejected e)"

text \<open>
  A page for the examples: game \<open>g\<close>, debug off, no host paused or muted; and the same
  page after \<open>initialize(0)\<close>, the load of the SDK and its \<open>SDK_READY\<close>.
\<close>

definition fresh_page :: session where
  "fresh_page =
     gameDistributionPlugin ''g'' (Some False) ''example.com'' False
       (\<lambda>c. \<lparr> needsPause = False, needsMute = False \<rparr>)"

definition ready_page :: session where
  "ready_page =
     session_run [ImportSettles None, Event ''SDK_READY''] (snd (initialize 0 fresh_page))"

text \<open>
  A full-screen or rewarded request as the host starts it, and the request record right
  after a start on which the SDK returned a pending promise.
\<close>

definition start_request :: "public_op \<Rightarrow> sdk_reply \<Rightarrow> session \<Rightarrow> session \<times> ad_request" where
  "start_request who reply s =
     (case who of
        ShowFullScreenAd \<Rightarrow> showFullScreenAd reply s
      | ShowRewardedAd \<Rightarrow> showRewardedAd reply s)"

definition fresh_request :: "public_op \<Rightarrow> ad_request" where
  "fresh_request who =
     \<lparr> caller = who, showAdPromise = Pending, timeoutPromise = Pending, timer_armed = True,
       timeout_ms = 5000, racePromise = Pending, safeShowAdPromise = Pending,
       publicPromise = Pending \<rparr>"

text \<open>
  The invariant of the call of \<open>initialize\<close>: the resolver is there while the call
  waits for \<open>SDK_READY\<close> and not before, and the promise has been fulfilled once when
  the call has returned and not at all before.
\<close>

definition init_ok :: "session \<Rightarrow> bool" where
  "init_ok s =
     (case init_task s of
        NotCalled \<Rightarrow> initialize_resolutions s = 0 \<and> resolveInitialize s = None
      | AwaitImport \<Rightarrow> initialize_resolutions s = 0 \<and> resolveInitialize s = None
      | AwaitReady \<Rightarrow> initialize_resolutions s = 0 \<and> resolveInitialize s = Some ()
      | InitFulfilled \<Rightarrow> initialize_resolutions s = 1
      | InitRejected e \<Rightarrow> initialize_resolutions s = 0 \<and> resolveInitialize s = None)"

section \<open>Lemmas\<close>

lemmas handler_defs =
  deliver_def onEvent_def call_resolveInitialize_def setNeedsPause_def setNeedsMute_def

lemmas page_defs =
  fresh_page_def ready_page_def gameDistributionPlugin_def initialize_def import_settles_def

lemmas request_defs =
  showFullScreenAd_def showRewardedAd_def safeShowAd_def settle_race_def sdk_settles_def
  timer_fires_def reset_pause_mute_def too_soon_def

subsection \<open>Traces\<close>

lemma run_append: "run (xs @ ys) sr = run ys (run xs sr)"
  by (induction xs arbitrary: sr) simp_all

lemma session_run_append: "session_run (xs @ ys) s = session_run ys (session_run xs s)"
  by (induction xs arbitrary: s) simp_all

subsection \<open>What a step leaves alone\<close>

lemma deliver_GD_OPTIONS: "GD_OPTIONS (deliver n s) = GD_OPTIONS s"
  by (simp add: handler_defs Let_def split: option.splits)

lemma deliver_pluginContext: "pluginContext (deliver n s) = pluginContext s"
  by (simp add: handler_defs Let_def split: option.splits)

lemma deliver_didShowAd:
  "didShowAd (deliver n s) = (didShowAd s \<or> (n = ''IMPRESSION'' \<and> GD_OPTIONS s \<noteq> None))"
  by (auto simp add: handler_defs Let_def split: option.splits)

lemma deliver_rewardReceived:
  "rewardReceived (deliver n s)
     = (rewardReceived s \<or> (n = ''SDK_REWARDED_WATCH_COMPLETE'' \<and> GD_OPTIONS s \<noteq> None))"
  by (auto simp add: handler_defs Let_def split: option.splits)

lemma deliver_all_GD_OPTIONS: "GD_OPTIONS (deliver_all names s) = GD_OPTIONS s"
  by (induction names arbitrary: s) (simp_all add: deliver_GD_OPTIONS)

lemma deliver_all_pluginContext: "pluginContext (deliver_all names s) = pluginContext s"
  by (induction names arbitrary: s) (simp_all add: deliver_pluginContext)

lemma deliver_all_didShowAd:
  "didShowAd (deliver_all names s)
     = (didShowAd s \<or> (''IMPRESSION'' \<in> set names \<and> GD_OPTIONS s \<noteq> None))"
  by (induction names arbitrary: s) (auto simp add: deliver_didShowAd deliver_GD_OPTIONS)

lemma deliver_all_rewardReceived:
  "rewardReceived (deliver_all names s)
     = (rewardReceived s
        \<or> (''SDK_REWARDED_WATCH_COMPLETE'' \<in> set names \<and> GD_OPTIONS s \<noteq> None))"
  by (induction names arbitrary: s) (auto simp add: deliver_rewardReceived deliver_GD_OPTIONS)

lemma session_run_events: "session_run (map Event names) s = deliver_all names s"
  by (induction names arbitrary: s) simp_all

lemma import_settles_frame:
  "GD_OPTIONS (import_settles e s) = GD_OPTIONS s"
  "pluginContext (import_settles e s) = pluginContext s"
  "didShowAd (import_settles e s) = didShowAd s"
  "rewardReceived (import_settles e s) = rewardReceived s"
  by (simp_all add: import_settles_def split: option.splits)

lemma reset_frame:
  "GD_OPTIONS (reset_pause_mute s) = GD_OPTIONS s"
  "pluginContext (reset_pause_mute s) = pluginContext s"
  "didShowAd (reset_pause_mute s) = didShowAd s"
  "rewardReceived (reset_pause_mute s) = rewardReceived s"
  by (simp_all add: reset_pause_mute_def setNeedsPause_def setNeedsMute_def split: option.splits)

lemma reset_flags:
  "pluginContext s = Some c \<Longrightarrow> \<not> needsPause (host (reset_pause_mute s) c)"
  "pluginContext s = Some c \<Longrightarrow> \<not> needsMute (host (reset_pause_mute s) c)"
  by (simp_all add: reset_pause_mute_def setNeedsPause_def setNeedsMute_def)

lemma settle_race_frame:
  "GD_OPTIONS (fst (settle_race p (s, r))) = GD_OPTIONS s"
  "pluginContext (fst (settle_race p (s, r))) = pluginContext s"
  "didShowAd (fst (settle_race p (s, r))) = didShowAd s"
  "rewardReceived (fst (settle_race p (s, r))) = rewardReceived s"
  by (simp_all add: settle_race_def reset_frame Let_def split: promise.splits)

lemma session_step_GD_OPTIONS: "GD_OPTIONS (session_step x s) = GD_OPTIONS s"
  by (cases x) (simp_all add: deliver_GD_OPTIONS deliver_all_GD_OPTIONS import_settles_frame)

lemma session_run_GD_OPTIONS: "GD_OPTIONS (session_run xs s) = GD_OPTIONS s"
  by (induction xs arbitrary: s) (simp_all add: session_step_GD_OPTIONS)

lemma initialize_GD_OPTIONS: "GD_OPTIONS (snd (initialize c s)) \<noteq> None"
  by (simp add: initialize_def)

subsection \<open>Requests\<close>

lemma safeShowAd_pending:
  "safeShowAd who ty (Returns None) s
     = (s\<lparr>didShowAd := False, sdk_calls := sdk_calls s @ [ShowAd ty None]\<rparr>, fresh_request who)"
  by (simp add: safeShowAd_def settle_race_def fresh_request_def)

lemma start_request_pending:
  "snd (start_request who (Returns None) s) = fresh_request who"
  "didShowAd (fst (start_request who (Returns None) s)) = False"
  "GD_OPTIONS (fst (start_request who (Returns None) s)) = GD_OPTIONS s"
  "pluginContext (fst (start_request who (Returns None) s)) = pluginContext s"
  by (cases who; simp add: start_request_def showFullScreenAd_def showRewardedAd_def
        safeShowAd_pending)+

lemma showRewardedAd_pending:
  "snd (showRewardedAd (Returns None) s) = fresh_request ShowRewardedAd"
  "didShowAd (fst (showRewardedAd (Returns None) s)) = False"
  "rewardReceived (fst (showRewardedAd (Returns None) s)) = False"
  "GD_OPTIONS (fst (showRewardedAd (Returns None) s)) = GD_OPTIONS s"
  "pluginContext (fst (showRewardedAd (Returns None) s)) = pluginContext s"
  by (simp_all add: showRewardedAd_def safeShowAd_pending)

lemma run_events:
  "run (map Event names) (s, r) = (session_run (map Event names) s, r)"
  by (induction names arbitrary: s) simp_all

lemma session_run_pluginContext: "pluginContext (session_run xs s) = pluginContext s"
proof (induction xs arbitrary: s)
  case Nil
  show ?case by simp
next
  case (Cons x xs)
  have "pluginContext (session_step x s) = pluginContext s"
    by (cases x)
      (simp_all add: deliver_pluginContext deliver_all_pluginContext import_settles_frame)
  with Cons.IH [of "session_step x s"] show ?case by simp
qed

lemma events_without_impression:
  "''IMPRESSION'' \<notin> set names \<Longrightarrow>
     didShowAd (session_run (map Event names) s) = didShowAd s"
  by (induction names arbitrary: s) (auto simp add: deliver_didShowAd)

lemma timer_fires_open:
  assumes "timer_armed r" and "racePromise r = Pending" and "\<not> didShowAd s"
  shows "fst (timer_fires (s, r)) = reset_pause_mute s"
    and "publicPromise (snd (timer_fires (s, r))) = Fulfilled unknown_result"
    and "safeShowAdPromise (snd (timer_fires (s, r))) = Fulfilled (Some unknown_result)"
  using assms by (simp_all add: timer_fires_def settle_race_def unknown_result_def Let_def)

subsection \<open>The invariant of a request\<close>

lemma showAd_cases:
  "showAd st = Fulfilled None \<or> showAd st = Fulfilled (Some time_constraint_result)
     \<or> (\<exists>v. showAd st = Rejected (Thrown v))"
  by (cases st) (simp_all add: time_constraint_result_def split: sum.splits)

lemma settled_step:
  assumes "racePromise r \<noteq> Pending"
  shows "racePromise (snd (step x (s, r))) = racePromise r"
    and "safeShowAdPromise (snd (step x (s, r))) = safeShowAdPromise r"
    and "publicPromise (snd (step x (s, r))) = publicPromise r"
  using assms
  by (cases x; simp add: timer_fires_def sdk_settles_def settle_race_def Let_def)+

lemma settled_run:
  "racePromise r \<noteq> Pending \<Longrightarrow>
     racePromise (snd (run xs (s, r))) = racePromise r \<and>
     safeShowAdPromise (snd (run xs (s, r))) = safeShowAdPromise r \<and>
     publicPromise (snd (run xs (s, r))) = publicPromise r"
proof (induction xs arbitrary: s r)
  case Nil
  then show ?case by simp
next
  case (Cons x xs)
  obtain s1 r1 where st: "step x (s, r) = (s1, r1)" by (cases "step x (s, r)")
  from Cons.prems settled_step [of r x s] st
  have keep: "racePromise r1 = racePromise r" "safeShowAdPromise r1 = safeShowAdPromise r"
      "publicPromise r1 = publicPromise r"
    by simp_all
  with Cons.prems have "racePromise r1 \<noteq> Pending" by simp
  from Cons.IH [OF this, of s1] keep st show ?case by simp
qed

lemma derived_result_reason: "res_errorReason (derived_result who s) = None"
  by (cases who) simp_all

lemma settle_race_ok:
  assumes "request_ok r"
    and "p = Fulfilled None \<or> p = Fulfilled (Some time_constraint_result)
           \<or> p = Fulfilled (Some unknown_result) \<or> (\<exists>e. p = Rejected e) \<or> p = Pending"
  shows "request_ok (snd (settle_race p (s, r)))"
  using assms
  by (auto simp add: settle_race_def request_ok_def derived_result_reason Let_def
        split: promise.splits option.splits)

lemma request_ok_fields:
  "racePromise r' = racePromise r \<Longrightarrow> safeShowAdPromise r' = safeShowAdPromise r \<Longrightarrow>
     publicPromise r' = publicPromise r \<Longrightarrow> request_ok r' = request_ok r"
  by (simp add: request_ok_def split: promise.splits option.splits)

lemma step_ok: "request_ok r \<Longrightarrow> request_ok (snd (step x (s, r)))"
proof (cases x)
  case (Event n)
  assume "request_ok r" then show ?thesis using Event by simp
next
  case (ImportSettles e)
  assume "request_ok r" then show ?thesis using ImportSettles by simp
next
  case TimerFires
  assume ok: "request_ok r"
  have a: "request_ok (r\<lparr>timer_armed := False\<rparr>)"
    using ok request_ok_fields [of "r\<lparr>timer_armed := False\<rparr>" r] by simp
  have b: "request_ok (r\<lparr>timer_armed := False, timeoutPromise := Fulfilled (Some unknown_result)\<rparr>)"
    using ok request_ok_fields [of "r\<lparr>timer_armed := False, timeoutPromise := Fulfilled (Some unknown_result)\<rparr>" r]
    by simp
  show ?thesis
    using TimerFires ok a settle_race_ok [OF b, of "Fulfilled (Some unknown_result)" s]
    by (simp add: timer_fires_def Let_def unknown_result_def)
next
  case (SdkSettles st)
  assume ok: "request_ok r"
  have b: "request_ok (r\<lparr>showAdPromise := showAd st\<rparr>)"
    using ok request_ok_fields [of "r\<lparr>showAdPromise := showAd st\<rparr>" r] by simp
  have "showAd st = Fulfilled None \<or> showAd st = Fulfilled (Some time_constraint_result)
           \<or> showAd st = Fulfilled (Some unknown_result) \<or> (\<exists>e. showAd st = Rejected e) \<or> showAd st = Pending"
    using showAd_cases [of st] by auto
  from settle_race_ok [OF b this, of s] show ?thesis
    using SdkSettles ok by (simp add: sdk_settles_def)
next
  case (SdkSettlesThen st names)
  assume ok: "request_ok r"
  have b: "request_ok (r\<lparr>showAdPromise := showAd st\<rparr>)"
    using ok request_ok_fields [of "r\<lparr>showAdPromise := showAd st\<rparr>" r] by simp
  have "showAd st = Fulfilled None \<or> showAd st = Fulfilled (Some time_constraint_result)
           \<or> showAd st = Fulfilled (Some unknown_result) \<or> (\<exists>e. showAd st = Rejected e) \<or> showAd st = Pending"
    using showAd_cases [of st] by auto
  from settle_race_ok [OF b this, of "deliver_all names s"] show ?thesis
    using SdkSettlesThen ok by (simp add: sdk_settles_def)
qed

lemma run_ok: "request_ok r \<Longrightarrow> request_ok (snd (run xs (s, r)))"
proof (induction xs arbitrary: s r)
  case Nil
  then show ?case by simp
next
  case (Cons x xs)
  obtain s1 r1 where st: "step x (s, r) = (s1, r1)" by (cases "step x (s, r)")
  with step_ok [OF Cons.prems, of x s] have "request_ok r1" by simp
  from Cons.IH [OF this, of s1] st show ?case by simp
qed

lemma safeShowAd_ok: "request_ok (snd (safeShowAd who ty reply s))"
proof -
  let ?p = "case reply of Throws e \<Rightarrow> showAd (Rejects e) | Returns None \<Rightarrow> Pending
              | Returns (Some st) \<Rightarrow> showAd st"
  have p: "?p = Fulfilled None \<or> ?p = Fulfilled (Some time_constraint_result)
           \<or> ?p = Fulfilled (Some unknown_result) \<or> (\<exists>e. ?p = Rejected e) \<or> ?p = Pending"
  proof (cases reply)
    case (Throws e)
    then show ?thesis using showAd_cases [of "Rejects e"] by auto
  next
    case (Returns ost)
    then show ?thesis using showAd_cases by (cases ost) auto
  qed
  have "request_ok \<lparr> caller = who, showAdPromise = ?p, timeoutPromise = Pending,
          timer_armed = True, timeout_ms = 5000, racePromise = Pending,
          safeShowAdPromise = Pending, publicPromise = Pending \<rparr>"
    by (simp add: request_ok_def)
  from settle_race_ok [OF this p] show ?thesis
    by (simp add: safeShowAd_def Let_def)
qed

subsection \<open>Steps of a request\<close>

lemma step_GD_OPTIONS: "GD_OPTIONS (fst (step x (s, r))) = GD_OPTIONS s"
  by (cases x; simp add: deliver_GD_OPTIONS deliver_all_GD_OPTIONS import_settles_frame
        timer_fires_def sdk_settles_def settle_race_frame Let_def)

lemma run_GD_OPTIONS: "GD_OPTIONS (fst (run xs (s, r))) = GD_OPTIONS s"
proof (induction xs arbitrary: s r)
  case Nil
  show ?case by simp
next
  case (Cons x xs)
  obtain s1 r1 where st: "step x (s, r) = (s1, r1)" by (cases "step x (s, r)")
  with step_GD_OPTIONS [of x s r] have "GD_OPTIONS s1 = GD_OPTIONS s" by simp
  with Cons.IH [of s1 r1] st show ?case by simp
qed

lemma step_caller: "caller (snd (step x (s, r))) = caller r"
  by (cases x; simp add: timer_fires_def sdk_settles_def settle_race_def Let_def
        split: promise.splits)

lemma run_caller: "caller (snd (run xs (s, r))) = caller r"
proof (induction xs arbitrary: s r)
  case Nil
  show ?case by simp
next
  case (Cons x xs)
  obtain s1 r1 where st: "step x (s, r) = (s1, r1)" by (cases "step x (s, r)")
  with step_caller [of x s r] have "caller r1 = caller r" by simp
  with Cons.IH [of s1 r1] st show ?case by simp
qed

lemma quiet_step:
  "x \<noteq> TimerFires \<Longrightarrow> \<not> is_sdk_settle x \<Longrightarrow> snd (step x (s, r)) = r"
  by (cases x) simp_all

lemma quiet_run:
  "list_all (\<lambda>x. x \<noteq> TimerFires \<and> \<not> is_sdk_settle x) xs \<Longrightarrow> snd (run xs (s, r)) = r"
proof (induction xs arbitrary: s)
  case Nil
  show ?case by simp
next
  case (Cons x xs)
  obtain s1 where st: "step x (s, r) = (s1, r)"
    using Cons.prems quiet_step [of x s r] by (cases "step x (s, r)") simp
  from Cons.IH [of s1] Cons.prems st show ?case by simp
qed

lemma shown_step:
  assumes "didShowAd s" and "open_request r" and "\<not> is_sdk_settle x"
  shows "didShowAd (fst (step x (s, r))) \<and> open_request (snd (step x (s, r)))"
  using assms
  by (cases x) (simp_all add: deliver_didShowAd import_settles_frame timer_fires_def
        open_request_def)

lemma shown_run:
  "didShowAd s \<Longrightarrow> open_request r \<Longrightarrow> list_all (\<lambda>x. \<not> is_sdk_settle x) xs \<Longrightarrow>
     open_request (snd (run xs (s, r)))"
proof (induction xs arbitrary: s r)
  case Nil
  then show ?case by simp
next
  case (Cons x xs)
  obtain s1 r1 where st: "step x (s, r) = (s1, r1)" by (cases "step x (s, r)")
  from Cons.prems have "\<not> is_sdk_settle x" by simp
  from shown_step [OF Cons.prems(1,2) this, of] st
  have "didShowAd s1" "open_request r1" by simp_all
  from Cons.IH [OF this] Cons.prems(3) st show ?case by simp
qed

subsection \<open>The SDK settles\<close>

lemma showAd_not_Pending: "showAd st \<noteq> Pending"
  using showAd_cases [of st] by auto

lemma sdk_settles_open:
  assumes "showAdPromise r = Pending" and "racePromise r = Pending"
  shows "racePromise (snd (sdk_settles st (s, r))) = showAd st"
    and "safeShowAdPromise (snd (sdk_settles st (s, r))) = showAd st"
    and "publicPromise (snd (sdk_settles st (s, r)))
           = (case showAd st of
                Pending \<Rightarrow> Pending
              | Fulfilled None \<Rightarrow> Fulfilled (derived_result (caller r) (reset_pause_mute s))
              | Fulfilled (Some res) \<Rightarrow> Fulfilled res
              | Rejected e \<Rightarrow> Rejected e)"
    and "fst (sdk_settles st (s, r))
           = (case showAd st of Fulfilled x \<Rightarrow> reset_pause_mute s | _ \<Rightarrow> s)"
  using assms showAd_not_Pending [of st]
  by (simp_all add: sdk_settles_def settle_race_def Let_def split: promise.splits option.splits)

lemma step_rewardReceived:
  "rewardReceived (fst (step x (s, r)))
     = (rewardReceived s
        \<or> (''SDK_REWARDED_WATCH_COMPLETE'' \<in> set (delivered x) \<and> GD_OPTIONS s \<noteq> None))"
  by (cases x; auto simp add: deliver_rewardReceived deliver_all_rewardReceived
        import_settles_frame timer_fires_def sdk_settles_def settle_race_frame Let_def)

lemma step_didShowAd:
  "didShowAd (fst (step x (s, r)))
     = (didShowAd s \<or> (''IMPRESSION'' \<in> set (delivered x) \<and> GD_OPTIONS s \<noteq> None))"
  by (cases x; auto simp add: deliver_didShowAd deliver_all_didShowAd
        import_settles_frame timer_fires_def sdk_settles_def settle_race_frame Let_def)

lemma run_rewardReceived:
  "GD_OPTIONS s \<noteq> None \<Longrightarrow>
     rewardReceived (fst (run xs (s, r)))
       = (rewardReceived s \<or> ''SDK_REWARDED_WATCH_COMPLETE'' \<in> set (concat (map delivered xs)))"
proof (induction xs arbitrary: s r)
  case Nil
  show ?case by simp
next
  case (Cons x xs)
  obtain s1 r1 where st: "step x (s, r) = (s1, r1)" by (cases "step x (s, r)")
  have opts: "GD_OPTIONS s1 \<noteq> None"
    using step_GD_OPTIONS [of x s r] st Cons.prems by simp
  have "rewardReceived s1
          = (rewardReceived s \<or> ''SDK_REWARDED_WATCH_COMPLETE'' \<in> set (delivered x))"
    using step_rewardReceived [of x s r] st Cons.prems by simp
  with Cons.IH [OF opts, of r1] st show ?case by auto
qed

lemma run_didShowAd:
  "GD_OPTIONS s \<noteq> None \<Longrightarrow>
     didShowAd (fst (run xs (s, r)))
       = (didShowAd s \<or> ''IMPRESSION'' \<in> set (concat (map delivered xs)))"
proof (induction xs arbitrary: s r)
  case Nil
  show ?case by simp
next
  case (Cons x xs)
  obtain s1 r1 where st: "step x (s, r) = (s1, r1)" by (cases "step x (s, r)")
  have opts: "GD_OPTIONS s1 \<noteq> None"
    using step_GD_OPTIONS [of x s r] st Cons.prems by simp
  have "didShowAd s1 = (didShowAd s \<or> ''IMPRESSION'' \<in> set (delivered x))"
    using step_didShowAd [of x s r] st Cons.prems by simp
  with Cons.IH [OF opts, of r1] st show ?case by auto
qed

lemma delivered_without_settle:
  "list_all (\<lambda>x. \<not> is_sdk_settle x) xs \<Longrightarrow>
     (name \<in> set (concat (map delivered xs))) = (Event name \<in> set xs)"
proof (induction xs)
  case Nil
  show ?case by simp
next
  case (Cons x xs)
  then show ?case by (cases x) auto
qed

lemma unsettled_step:
  assumes "showAdPromise r = Pending"
    and "racePromise r = Pending \<or> racePromise r = Fulfilled (Some unknown_result)"
    and "\<not> is_sdk_settle x"
  shows "showAdPromise (snd (step x (s, r))) = Pending
       \<and> (racePromise (snd (step x (s, r))) = Pending
          \<or> racePromise (snd (step x (s, r))) = Fulfilled (Some unknown_result))"
  using assms
  by (cases x) (auto simp add: timer_fires_def settle_race_def unknown_result_def Let_def)

lemma unsettled_run:
  "showAdPromise r = Pending \<Longrightarrow>
   racePromise r = Pending \<or> racePromise r = Fulfilled (Some unknown_result) \<Longrightarrow>
   list_all (\<lambda>x. \<not> is_sdk_settle x) xs \<Longrightarrow>
     showAdPromise (snd (run xs (s, r))) = Pending
     \<and> (racePromise (snd (run xs (s, r))) = Pending
        \<or> racePromise (snd (run xs (s, r))) = Fulfilled (Some unknown_result))"
proof (induction xs arbitrary: s r)
  case Nil
  then show ?case by simp
next
  case (Cons x xs)
  obtain s1 r1 where st: "step x (s, r) = (s1, r1)" by (cases "step x (s, r)")
  from Cons.prems have "\<not> is_sdk_settle x" by simp
  from unsettled_step [OF Cons.prems(1,2) this, of s] st
  have "showAdPromise r1 = Pending"
       "racePromise r1 = Pending \<or> racePromise r1 = Fulfilled (Some unknown_result)"
    by simp_all
  from Cons.IH [OF this, of s1] Cons.prems(3) st show ?case by simp
qed

lemma request_ok_null:
  "request_ok r \<Longrightarrow> safeShowAdPromise r = Fulfilled None \<Longrightarrow> racePromise r = Fulfilled None"
  by (simp add: request_ok_def)

subsection \<open>What safeShowAd returns\<close>

lemma settle_race_caller: "caller (snd (settle_race p (s, r))) = caller r"
  by (simp add: settle_race_def Let_def split: promise.splits)

lemma start_request_caller: "caller (snd (start_request who reply s)) = who"
  by (cases who) (simp_all add: start_request_def showFullScreenAd_def showRewardedAd_def
        safeShowAd_def settle_race_caller Let_def)

lemma start_request_ok: "request_ok (snd (start_request who reply s))"
  by (cases who) (simp_all add: start_request_def showFullScreenAd_def showRewardedAd_def
        safeShowAd_ok)

lemma settle_race_null:
  assumes "racePromise r = Pending" and "safeShowAdPromise r = Pending"
    and "safeShowAdPromise (snd (settle_race p (s, r))) = Fulfilled None"
  shows "publicPromise (snd (settle_race p (s, r)))
           = Fulfilled (derived_result (caller r) (fst (settle_race p (s, r))))"
  using assms
  by (simp add: settle_race_def Let_def split: promise.splits option.splits)

lemma safeShowAd_null:
  assumes "safeShowAdPromise (snd (safeShowAd who ty reply s)) = Fulfilled None"
  shows "publicPromise (snd (safeShowAd who ty reply s))
           = Fulfilled (derived_result who (fst (safeShowAd who ty reply s)))"
  using assms settle_race_null
    [of "\<lparr> caller = who,
            showAdPromise = (case reply of Throws e \<Rightarrow> showAd (Rejects e)
                             | Returns None \<Rightarrow> Pending | Returns (Some st) \<Rightarrow> showAd st),
            timeoutPromise = Pending, timer_armed = True, timeout_ms = 5000,
            racePromise = Pending, safeShowAdPromise = Pending, publicPromise = Pending \<rparr>"
        "case reply of Throws e \<Rightarrow> showAd (Rejects e)
                             | Returns None \<Rightarrow> Pending | Returns (Some st) \<Rightarrow> showAd st"
        "s\<lparr>didShowAd := False, sdk_calls := sdk_calls s @ [ShowAd ty None]\<rparr>"]
  by (simp add: safeShowAd_def Let_def)

lemma start_request_null:
  assumes "safeShowAdPromise (snd (start_request who reply s)) = Fulfilled None"
  shows "publicPromise (snd (start_request who reply s))
           = Fulfilled (derived_result who (fst (start_request who reply s)))"
proof (cases who)
  case ShowFullScreenAd
  with assms safeShowAd_null [of ShowFullScreenAd Interstitial reply s] show ?thesis
    by (simp add: start_request_def showFullScreenAd_def)
next
  case ShowRewardedAd
  with assms safeShowAd_null [of ShowRewardedAd Rewarded reply "s\<lparr>rewardReceived := False\<rparr>"]
  show ?thesis
    by (simp add: start_request_def showRewardedAd_def)
qed

lemma step_null:
  assumes "racePromise r = Pending" and "safeShowAdPromise r = Pending"
    and "safeShowAdPromise (snd (step x (s, r))) = Fulfilled None"
  shows "publicPromise (snd (step x (s, r)))
           = Fulfilled (derived_result (caller r) (fst (step x (s, r))))"
proof (cases x)
  case (Event n)
  with assms show ?thesis by simp
next
  case (ImportSettles e)
  with assms show ?thesis by simp
next
  case TimerFires
  with assms show ?thesis
    by (simp add: timer_fires_def settle_race_def Let_def split: if_splits)
next
  case (SdkSettles st)
  show ?thesis
  proof (cases "showAdPromise r = Pending")
    case True
    with assms SdkSettles
      settle_race_null [of "r\<lparr>showAdPromise := showAd st\<rparr>" "showAd st" s]
    show ?thesis by (simp add: sdk_settles_def)
  next
    case False
    with assms SdkSettles show ?thesis by (simp add: sdk_settles_def)
  qed
next
  case (SdkSettlesThen st names)
  show ?thesis
  proof (cases "showAdPromise r = Pending")
    case True
    with assms SdkSettlesThen
      settle_race_null [of "r\<lparr>showAdPromise := showAd st\<rparr>" "showAd st" "deliver_all names s"]
    show ?thesis by (simp add: sdk_settles_def)
  next
    case False
    with assms SdkSettlesThen show ?thesis by (simp add: sdk_settles_def)
  qed
qed

lemma request_ok_outcome:
  assumes "request_ok r" and "safeShowAdPromise r = Fulfilled (Some res)"
  shows "res = time_constraint_result \<or> res = unknown_result" and "publicPromise r = Fulfilled res"
  using assms by (simp_all add: request_ok_def)

lemma request_ok_pending:
  "request_ok r \<Longrightarrow> safeShowAdPromise r = Pending \<Longrightarrow> racePromise r = Pending"
  by (simp add: request_ok_def)

lemma request_ok_null_public:
  assumes "request_ok r" and "safeShowAdPromise r = Fulfilled None"
  shows "\<exists>b. publicPromise r = Fulfilled \<lparr> res_didShowAd = b, res_errorReason = None \<rparr>"
proof -
  from assms obtain res where res: "publicPromise r = Fulfilled res" "res_errorReason res = None"
    by (auto simp add: request_ok_def split: promise.splits)
  then have "res = \<lparr> res_didShowAd = res_didShowAd res, res_errorReason = None \<rparr>"
    by simp
  with res(1) show ?thesis by metis
qed

lemma request_ok_race_pending:
  "request_ok r \<Longrightarrow> racePromise r = Pending \<Longrightarrow> safeShowAdPromise r = Pending"
  by (simp add: request_ok_def split: promise.splits option.splits)

lemma settle_step_decides:
  assumes "showAdPromise r = Pending" and "is_sdk_settle x"
  shows "racePromise (snd (step x (s, r))) \<noteq> Pending"
  using assms showAd_not_Pending
  by (cases x) (auto simp add: sdk_settles_def settle_race_def Let_def split: promise.splits)

lemma null_result_after_settle:
  assumes "list_all (\<lambda>x. \<not> is_sdk_settle x) xs" and "is_sdk_settle x"
    and "safeShowAdPromise (snd (run (xs @ [x] @ post) (s0, fresh_request who))) = Fulfilled None"
  shows "publicPromise (snd (run (xs @ [x] @ post) (s0, fresh_request who)))
           = Fulfilled (derived_result who (fst (run (xs @ [x]) (s0, fresh_request who))))"
proof -
  let ?fresh = "fresh_request who"
  obtain s1 r1 where before: "run xs (s0, ?fresh) = (s1, r1)"
    by (cases "run xs (s0, ?fresh)")
  have fresh: "showAdPromise ?fresh = Pending" "racePromise ?fresh = Pending"
      "request_ok ?fresh" "caller ?fresh = who"
    by (simp_all add: fresh_request_def request_ok_def)
  have r1: "showAdPromise r1 = Pending"
      "racePromise r1 = Pending \<or> racePromise r1 = Fulfilled (Some unknown_result)"
    using unsettled_run [OF fresh(1) _ assms(1), of s0] fresh(2) before by simp_all
  have ok1: "request_ok r1"
    using run_ok [OF fresh(3), of xs s0] before by simp
  have who: "caller r1 = who"
    using run_caller [of xs s0 ?fresh] before fresh(4) by simp
  obtain s2 r2 where settle: "step x (s1, r1) = (s2, r2)"
    by (cases "step x (s1, r1)")
  have upto: "run (xs @ [x]) (s0, ?fresh) = (s2, r2)"
    by (simp add: run_append before settle)
  have whole: "run (xs @ [x] @ post) (s0, ?fresh) = run post (s2, r2)"
    by (simp add: run_append before settle)
  have "racePromise r2 \<noteq> Pending"
    using settle_step_decides [OF r1(1) assms(2), of s1] settle by simp
  from settled_run [OF this, of post s2]
  have keep: "safeShowAdPromise (snd (run post (s2, r2))) = safeShowAdPromise r2"
      "publicPromise (snd (run post (s2, r2))) = publicPromise r2"
    by simp_all
  have null: "safeShowAdPromise r2 = Fulfilled None"
    using assms(3) whole keep(1) by simp
  show ?thesis
  proof (cases "racePromise r1 = Pending")
    case True
    from step_null [OF True request_ok_race_pending [OF ok1 True], of x s1] settle null who
    have "publicPromise r2 = Fulfilled (derived_result who s2)"
      by simp
    then show ?thesis
      using keep(2) whole upto by simp
  next
    case False
    have "safeShowAdPromise r2 = safeShowAdPromise r1"
      using settled_step(2) [OF False, of x s1] settle by simp
    with null have "safeShowAdPromise r1 = Fulfilled None"
      by simp
    from request_ok_null [OF ok1 this] r1(2) False show ?thesis
      by simp
  qed
qed

lemma showFullScreenAd_pending:
  "showFullScreenAd (Returns None) s
     = (s\<lparr>didShowAd := False, sdk_calls := sdk_calls s @ [ShowAd Interstitial None]\<rparr>,
        fresh_request ShowFullScreenAd)"
  by (simp add: showFullScreenAd_def safeShowAd_pending)

lemma showRewardedAd_pending_eq:
  "showRewardedAd (Returns None) s
     = (s\<lparr>rewardReceived := False, didShowAd := False,
           sdk_calls := sdk_calls s @ [ShowAd Rewarded None]\<rparr>,
        fresh_request ShowRewardedAd)"
  by (simp add: showRewardedAd_def safeShowAd_pending)

lemma impression_flag_by_trace:
  assumes "GD_OPTIONS s \<noteq> None"
  shows "didShowAd (fst (run ys (showFullScreenAd (Returns None) s)))
           = (''IMPRESSION'' \<in> set (concat (map delivered ys)))"
  using assms
    run_didShowAd [of "s\<lparr>didShowAd := False, sdk_calls := sdk_calls s @ [ShowAd Interstitial None]\<rparr>"
      ys "fresh_request ShowFullScreenAd"]
  by (simp add: showFullScreenAd_pending)

lemma reward_flag_by_trace:
  assumes "GD_OPTIONS s \<noteq> None"
  shows "rewardReceived (fst (run ys (showRewardedAd (Returns None) s)))
           = (''SDK_REWARDED_WATCH_COMPLETE'' \<in> set (concat (map delivered ys)))"
  using assms
    run_rewardReceived [of "s\<lparr>rewardReceived := False, didShowAd := False,
           sdk_calls := sdk_calls s @ [ShowAd Rewarded None]\<rparr>"
      ys "fresh_request ShowRewardedAd"]
  by (simp add: showRewardedAd_pending_eq)

lemma safeShowAd_start_flags:
  "didShowAd (fst (safeShowAd who ty reply s)) = False"
  "rewardReceived (fst (safeShowAd who ty reply s)) = rewardReceived s"
  by (simp_all add: safeShowAd_def settle_race_frame Let_def)

lemma null_step_result:
  assumes "request_ok r" and "caller r = who" and "run xs (s0, r) = (s1, r1)"
    and "safeShowAdPromise r1 = Pending"
    and "safeShowAdPromise (snd (run (xs @ [x]) (s0, r))) = Fulfilled None"
  shows "publicPromise (snd (run (xs @ [x]) (s0, r)))
           = Fulfilled (derived_result who (fst (run (xs @ [x]) (s0, r))))"
proof -
  have ok1: "request_ok r1" and who: "caller r1 = who"
    using run_ok [OF assms(1), of xs s0] run_caller [of xs s0 r] assms(2,3) by simp_all
  have after: "run (xs @ [x]) (s0, r) = step x (s1, r1)"
    by (simp add: run_append assms(3))
  from step_null [OF request_ok_pending [OF ok1 assms(4)] assms(4), of x s1] assms(5) who after
  show ?thesis by simp
qed

subsection \<open>The "too soon" rejection\<close>

lemma publicPromise_of_showAd:
  "(case showAd (Rejects e) of
      Pending \<Rightarrow> Pending
    | Fulfilled None \<Rightarrow> Fulfilled (derived_result who s)
    | Fulfilled (Some res) \<Rightarrow> Fulfilled res
    | Rejected f \<Rightarrow> Rejected f)
   = (case equals_too_soon e of
        Inl v \<Rightarrow> Rejected (Thrown v)
      | Inr b \<Rightarrow> if b then Fulfilled time_constraint_result else Rejected (Thrown e))"
  by (simp add: time_constraint_result_def split: sum.splits)

lemma start_request_throws:
  "publicPromise (snd (start_request who (Throws e) s))
     = (case equals_too_soon e of
          Inl v \<Rightarrow> Rejected (Thrown v)
        | Inr b \<Rightarrow> if b then Fulfilled time_constraint_result else Rejected (Thrown e))"
  by (cases who) (simp_all add: start_request_def showFullScreenAd_def showRewardedAd_def
        safeShowAd_def settle_race_def time_constraint_result_def Let_def split: sum.splits)

lemma rejection_while_open:
  assumes "open_request r"
    and "x = SdkSettles (Rejects e) \<or> x = SdkSettlesThen (Rejects e) names"
  shows "publicPromise (snd (step x (s, r)))
     = (case equals_too_soon e of
          Inl v \<Rightarrow> Rejected (Thrown v)
        | Inr b \<Rightarrow> if b then Fulfilled time_constraint_result else Rejected (Thrown e))"
proof -
  have open': "showAdPromise r = Pending" "racePromise r = Pending"
    using assms(1) by (simp_all add: open_request_def)
  from assms(2) show ?thesis
  proof
    assume "x = SdkSettles (Rejects e)"
    then show ?thesis
      using sdk_settles_open(3) [OF open', of "Rejects e" s]
        publicPromise_of_showAd
          [where e = e and who = "caller r" and s = "reset_pause_mute s"]
      by simp
  next
    assume "x = SdkSettlesThen (Rejects e) names"
    then show ?thesis
      using sdk_settles_open(3) [OF open', of "Rejects e" "deliver_all names s"]
        publicPromise_of_showAd
          [where e = e and who = "caller r" and s = "reset_pause_mute (deliver_all names s)"]
      by simp
  qed
qed

text \<open>
  A call of \<open>showAd\<close> that throws, or returns something settled, is the call that
  returns a pending promise followed at once by the settlement: the call stands under
  \<open>await\<close> in a \<open>try\<close> block. Events that the SDK delivers while the call runs are
  therefore the stimuli between that start and that settlement.
\<close>

lemma settled_reply_as_stimulus:
  "safeShowAd who ty (Throws e) s
     = step (SdkSettles (Rejects e)) (safeShowAd who ty (Returns None) s)"
  "safeShowAd who ty (Returns (Some st)) s
     = step (SdkSettles st) (safeShowAd who ty (Returns None) s)"
  by (simp_all add: safeShowAd_def sdk_settles_def settle_race_def Let_def)

subsection \<open>The handshake of initialize\<close>

lemma deliver_init_task: "n \<noteq> ''SDK_READY'' \<Longrightarrow> init_task (deliver n s) = init_task s"
  by (simp add: handler_defs split: option.splits)

lemma deliver_ready_fulfilled:
  "init_task s = InitFulfilled \<Longrightarrow> deliver ''SDK_READY'' s = s"
  by (simp add: deliver_def onEvent_def call_resolveInitialize_def split: option.splits)

lemma deliver_keeps_fulfilled:
  "init_task s = InitFulfilled \<Longrightarrow> init_task (deliver n s) = InitFulfilled"
  by (cases "n = ''SDK_READY''") (simp_all add: deliver_ready_fulfilled deliver_init_task)

lemma deliver_all_keeps_fulfilled:
  "init_task s = InitFulfilled \<Longrightarrow> init_task (deliver_all names s) = InitFulfilled"
  by (induction names arbitrary: s) (simp_all add: deliver_keeps_fulfilled)

lemma session_step_keeps_fulfilled:
  "init_task s = InitFulfilled \<Longrightarrow> init_task (session_step x s) = InitFulfilled"
  by (cases x)
    (simp_all add: deliver_keeps_fulfilled deliver_all_keeps_fulfilled import_settles_def)

lemma session_run_keeps_fulfilled:
  "init_task s = InitFulfilled \<Longrightarrow> init_task (session_run xs s) = InitFulfilled"
  by (induction xs arbitrary: s) (simp_all add: session_step_keeps_fulfilled)

lemma deliver_init_ok: "init_ok s \<Longrightarrow> init_ok (deliver n s)"
  by (auto simp add: init_ok_def handler_defs split: option.splits init_task.splits)

lemma deliver_all_init_ok: "init_ok s \<Longrightarrow> init_ok (deliver_all names s)"
  by (induction names arbitrary: s) (simp_all add: deliver_init_ok)

lemma session_step_init_ok: "init_ok s \<Longrightarrow> init_ok (session_step x s)"
proof (cases x)
  case (ImportSettles e)
  assume "init_ok s"
  then show ?thesis using ImportSettles
    by (auto simp add: init_ok_def import_settles_def split: option.splits init_task.splits)
qed (simp_all add: deliver_init_ok deliver_all_init_ok)

lemma session_run_init_ok: "init_ok s \<Longrightarrow> init_ok (session_run xs s)"
  by (induction xs arbitrary: s) (simp_all add: session_step_init_ok)

lemma init_ok_count:
  assumes "init_ok s"
  shows "initialize_resolutions s \<le> 1"
    and "(init_task s = InitFulfilled) = (initialize_resolutions s = 1)"
  using assms by (simp_all add: init_ok_def split: init_task.splits)

lemma deliver_all_init_task:
  "''SDK_READY'' \<notin> set names \<Longrightarrow> init_task (deliver_all names s) = init_task s"
  by (induction names arbitrary: s) (auto simp add: deliver_init_task)

lemma not_fulfilled_step:
  "init_task s \<noteq> InitFulfilled \<Longrightarrow> ''SDK_READY'' \<notin> set (delivered x) \<Longrightarrow>
     init_task (session_step x s) \<noteq> InitFulfilled"
  by (cases x)
    (auto simp add: deliver_init_task deliver_all_init_task import_settles_def
       split: option.splits)

lemma not_fulfilled_run:
  "init_task s \<noteq> InitFulfilled \<Longrightarrow> ''SDK_READY'' \<notin> set (concat (map delivered xs)) \<Longrightarrow>
     init_task (session_run xs s) \<noteq> InitFulfilled"
proof (induction xs arbitrary: s)
  case Nil
  then show ?case by simp
next
  case (Cons x xs)
  from Cons.prems have "''SDK_READY'' \<notin> set (delivered x)"
      "''SDK_READY'' \<notin> set (concat (map delivered xs))"
    by auto
  from Cons.IH [OF not_fulfilled_step [OF Cons.prems(1) this(1)] this(2)]
  show ?case by simp
qed

lemma deliver_await_import:
  assumes "init_task s = AwaitImport" and "resolveInitialize s = None"
  shows "init_task (deliver n s) = AwaitImport \<and> resolveInitialize (deliver n s) = None"
  using assms by (simp add: handler_defs split: option.splits)

lemma deliver_all_await_import:
  "init_task s = AwaitImport \<Longrightarrow> resolveInitialize s = None \<Longrightarrow>
     init_task (deliver_all names s) = AwaitImport \<and> resolveInitialize (deliver_all names s) = None"
proof (induction names arbitrary: s)
  case Nil
  then show ?case by simp
next
  case (Cons n names)
  from deliver_await_import [OF Cons.prems, of n] Cons.IH [of "deliver n s"]
  show ?case by simp
qed

lemma await_import_step:
  assumes "init_task s = AwaitImport" and "resolveInitialize s = None"
    and "\<not> is_import_settle x"
  shows "init_task (session_step x s) = AwaitImport \<and> resolveInitialize (session_step x s) = None"
  using assms deliver_await_import [OF assms(1,2)] deliver_all_await_import [OF assms(1,2)]
  by (cases x) simp_all

lemma await_import_run:
  "init_task s = AwaitImport \<Longrightarrow> resolveInitialize s = None \<Longrightarrow>
   list_all (\<lambda>x. \<not> is_import_settle x) xs \<Longrightarrow>
     init_task (session_run xs s) = AwaitImport \<and> resolveInitialize (session_run xs s) = None"
proof (induction xs arbitrary: s)
  case Nil
  then show ?case by simp
next
  case (Cons x xs)
  from Cons.prems have "\<not> is_import_settle x" by simp
  from await_import_step [OF Cons.prems(1,2) this] Cons.IH [of "session_step x s"] Cons.prems(3)
  show ?case by simp
qed

lemma deliver_await_ready:
  assumes "resolveInitialize s = Some ()"
    and "init_task s = AwaitReady \<or> init_task s = InitFulfilled"
  shows "resolveInitialize (deliver n s) = Some ()
       \<and> (init_task (deliver n s) = AwaitReady \<or> init_task (deliver n s) = InitFulfilled)"
  using assms by (auto simp add: handler_defs Let_def split: option.splits)

lemma deliver_all_await_ready:
  "resolveInitialize s = Some () \<Longrightarrow>
   init_task s = AwaitReady \<or> init_task s = InitFulfilled \<Longrightarrow>
     resolveInitialize (deliver_all names s) = Some ()
     \<and> (init_task (deliver_all names s) = AwaitReady
        \<or> init_task (deliver_all names s) = InitFulfilled)"
proof (induction names arbitrary: s)
  case Nil
  then show ?case by simp
next
  case (Cons n names)
  from deliver_await_ready [OF Cons.prems, of n] Cons.IH [of "deliver n s"]
  show ?case by simp
qed

lemma await_ready_step:
  assumes "resolveInitialize s = Some ()"
    and "init_task s = AwaitReady \<or> init_task s = InitFulfilled"
  shows "resolveInitialize (session_step x s) = Some ()
       \<and> (init_task (session_step x s) = AwaitReady \<or> init_task (session_step x s) = InitFulfilled)"
proof (cases x)
  case (Event n)
  with deliver_await_ready [OF assms, of n] show ?thesis by simp
next
  case (ImportSettles e)
  with assms show ?thesis by (auto simp add: import_settles_def)
next
  case TimerFires
  with assms show ?thesis by simp
next
  case (SdkSettles st)
  with assms show ?thesis by simp
next
  case (SdkSettlesThen st names)
  with deliver_all_await_ready [OF assms, of names] show ?thesis by simp
qed

lemma await_ready_run:
  "resolveInitialize s = Some () \<Longrightarrow>
   init_task s = AwaitReady \<or> init_task s = InitFulfilled \<Longrightarrow>
     resolveInitialize (session_run xs s) = Some ()
     \<and> (init_task (session_run xs s) = AwaitReady \<or> init_task (session_run xs s) = InitFulfilled)"
proof (induction xs arbitrary: s)
  case Nil
  then show ?case by simp
next
  case (Cons x xs)
  from await_ready_step [OF Cons.prems, of x] Cons.IH [of "session_step x s"]
  show ?case by simp
qed

lemma deliver_ready_resolves:
  assumes "GD_OPTIONS s \<noteq> None" and "resolveInitialize s = Some ()"
    and "init_task s = AwaitReady \<or> init_task s = InitFulfilled"
  shows "init_task (deliver ''SDK_READY'' s) = InitFulfilled"
  using assms by (auto simp add: handler_defs Let_def)

lemma initialize_fresh:
  "init_task (snd (initialize c (gameDistributionPlugin gid dbg hostname ls h))) = AwaitImport"
  "resolveInitialize (snd (initialize c (gameDistributionPlugin gid dbg hostname ls h))) = None"
  "init_ok (snd (initialize c (gameDistributionPlugin gid dbg hostname ls h)))"
  by (simp_all add: initialize_def gameDistributionPlugin_def init_ok_def)

subsection \<open>The event handler, event by event\<close>

lemma onEvent_throws_iff:
  "(\<exists>e. onEvent c name s = Inl e) = (name = ''SDK_READY'' \<and> resolveInitialize s = None)"
  by (auto simp add: onEvent_def split: option.splits)

lemma onEvent_unknown_name:
  assumes "name \<notin> {''SDK_READY'', ''SDK_GAME_PAUSE'', ''SDK_GAME_START'',
                      ''SDK_REWARDED_WATCH_COMPLETE'', ''IMPRESSION''}"
  shows "onEvent c name s = Inr s"
  using assms by (simp add: onEvent_def)

subsection \<open>The reset of pause and mute\<close>

lemma fulfilment_resets_pause_mute:
  assumes "pluginContext s = Some c" and "racePromise r = Pending"
    and "racePromise (snd (step x (s, r))) = Fulfilled v"
  shows "\<not> needsPause (host (fst (step x (s, r))) c) \<and> \<not> needsMute (host (fst (step x (s, r))) c)"
proof (cases x)
  case (Event n)
  with assms show ?thesis by simp
next
  case (ImportSettles e)
  with assms show ?thesis by simp
next
  case TimerFires
  with assms reset_flags [OF assms(1)] show ?thesis
    by (simp add: timer_fires_def settle_race_def Let_def split: if_splits)
next
  case (SdkSettles st)
  with assms reset_flags [OF assms(1)] show ?thesis
    by (simp add: sdk_settles_def settle_race_def Let_def split: if_splits promise.splits)
next
  case (SdkSettlesThen st names)
  have "pluginContext (deliver_all names s) = Some c"
    using assms(1) by (simp add: deliver_all_pluginContext)
  with assms SdkSettlesThen reset_flags [OF this] show ?thesis
    by (simp add: sdk_settles_def settle_race_def Let_def split: if_splits promise.splits)
qed

section \<open>The claims\<close>

subsection \<open>Claims about initialize and the event handler\<close>

text \<open>
  What holds of the handshake on every sequence \<open>xs\<close> of stimuli after \<open>initialize\<close> on
  a new plugin: the promise of \<open>initialize\<close> is not fulfilled unless \<open>SDK_READY\<close> has
  been delivered; it has been fulfilled at most once, and exactly once if it is
  fulfilled; once it is fulfilled a further \<open>SDK_READY\<close> changes nothing; and an
  \<open>SDK_READY\<close> that arrives after the SDK has loaded fulfils it, whatever else arrives
  before, between and after.
\<close>

lemma handshake_after_load:
  "(''SDK_READY'' \<notin> set (concat (map delivered xs)) \<longrightarrow>
      init_task (session_run xs
        (snd (initialize c (gameDistributionPlugin gid dbg hostname ls h)))) \<noteq> InitFulfilled)
   \<and> initialize_resolutions (session_run xs
        (snd (initialize c (gameDistributionPlugin gid dbg hostname ls h)))) \<le> 1
   \<and> (init_task (session_run xs
        (snd (initialize c (gameDistributionPlugin gid dbg hostname ls h)))) = InitFulfilled)
      = (initialize_resolutions (session_run xs
        (snd (initialize c (gameDistributionPlugin gid dbg hostname ls h)))) = 1)
   \<and> (init_task (session_run xs
        (snd (initialize c (gameDistributionPlugin gid dbg hostname ls h)))) = InitFulfilled \<longrightarrow>
        session_step (Event ''SDK_READY'') (session_run xs
          (snd (initialize c (gameDistributionPlugin gid dbg hostname ls h))))
        = session_run xs (snd (initialize c (gameDistributionPlugin gid dbg hostname ls h))))
   \<and> (list_all (\<lambda>x. \<not> is_import_settle x) pre \<longrightarrow>
        init_task (session_run (pre @ [ImportSettles None] @ mid @ [Event ''SDK_READY''] @ post)
          (snd (initialize c (gameDistributionPlugin gid dbg hostname ls h)))) = InitFulfilled
        \<and> initialize_resolutions
            (session_run (pre @ [ImportSettles None] @ mid @ [Event ''SDK_READY''] @ post)
              (snd (initialize c (gameDistributionPlugin gid dbg hostname ls h)))) = 1)"
proof -
  let ?s0 = "snd (initialize c (gameDistributionPlugin gid dbg hostname ls h))"
  note fresh = initialize_fresh [of c gid dbg hostname ls h]
  have ok: "init_ok (session_run ys ?s0)" for ys
    by (rule session_run_init_ok [OF fresh(3)])
  have first: "''SDK_READY'' \<notin> set (concat (map delivered xs)) \<longrightarrow>
      init_task (session_run xs ?s0) \<noteq> InitFulfilled"
    using not_fulfilled_run [of ?s0 xs] fresh(1) by simp
  have second: "initialize_resolutions (session_run xs ?s0) \<le> 1"
    by (rule init_ok_count(1) [OF ok])
  have third: "(init_task (session_run xs ?s0) = InitFulfilled)
                 = (initialize_resolutions (session_run xs ?s0) = 1)"
    by (rule init_ok_count(2) [OF ok])
  have fourth: "init_task (session_run xs ?s0) = InitFulfilled \<longrightarrow>
        session_step (Event ''SDK_READY'') (session_run xs ?s0) = session_run xs ?s0"
    by (simp add: deliver_ready_fulfilled)
  have fifth: "init_task (session_run (pre @ [ImportSettles None] @ mid @ [Event ''SDK_READY''] @ post) ?s0)
                 = InitFulfilled"
    if pre: "list_all (\<lambda>x. \<not> is_import_settle x) pre"
  proof -
    let ?s1 = "session_run pre ?s0"
    have s1: "init_task ?s1 = AwaitImport" "resolveInitialize ?s1 = None"
      using await_import_run [OF fresh(1,2) pre] by simp_all
    let ?s2 = "import_settles None ?s1"
    have s2: "resolveInitialize ?s2 = Some ()" "init_task ?s2 = AwaitReady"
      using s1 by (simp_all add: import_settles_def)
    let ?s3 = "session_run mid ?s2"
    have s3: "resolveInitialize ?s3 = Some ()"
        "init_task ?s3 = AwaitReady \<or> init_task ?s3 = InitFulfilled"
      using await_ready_run [of ?s2 mid] s2 by simp_all
    have "GD_OPTIONS ?s3 \<noteq> None"
      by (simp add: session_run_GD_OPTIONS import_settles_frame initialize_GD_OPTIONS)
    from deliver_ready_resolves [OF this s3]
    have "init_task (session_run post (deliver ''SDK_READY'' ?s3)) = InitFulfilled"
      by (rule session_run_keeps_fulfilled)
    then show ?thesis
      by (simp add: session_run_append)
  qed
  have sixth: "list_all (\<lambda>x. \<not> is_import_settle x) pre \<longrightarrow>
        initialize_resolutions
          (session_run (pre @ [ImportSettles None] @ mid @ [Event ''SDK_READY''] @ post) ?s0) = 1"
    using fifth init_ok_count(2) [OF ok] by blast
  show ?thesis
    using first second third fourth fifth sixth by blast
qed

text \<open>
  C3, at the input where the code departs from it. \<open>SDK_READY\<close> is delivered to the
  registered handler before \<open>await import(sdkUrl)\<close> has resumed, and the import then
  completes. The event has been observed, yet the promise of \<open>initialize\<close> has been
  fulfilled zero times and the call waits for a further \<open>SDK_READY\<close>: the resolver did
  not exist when the event came.
\<close>

theorem ready_before_import_is_lost:
  "init_task (session_run [Event ''SDK_READY'', ImportSettles None]
       (snd (initialize c (gameDistributionPlugin gid dbg hostname ls h)))) = AwaitReady
   \<and> initialize_resolutions (session_run [Event ''SDK_READY'', ImportSettles None]
       (snd (initialize c (gameDistributionPlugin gid dbg hostname ls h)))) = 0
   \<and> init_task (session_run [Event ''SDK_READY'', Event ''SDK_READY'', ImportSettles None,
         Event ''SDK_GAME_START'']
       (snd (initialize c (gameDistributionPlugin gid dbg hostname ls h)))) = AwaitReady"
  by (simp add: gameDistributionPlugin_def initialize_def import_settles_def handler_defs)

text \<open>
  C4. A call of \<open>initialize\<close> that follows an earlier call on the same session, whatever
  events and import settlements came in between, fails with \<open>DuplicateInitialization\<close>
  and returns the session as it found it: the options object with its event handler,
  the stored context, the flags and the list of calls to the loader and the SDK are the
  same as before the call.
\<close>

theorem initialize_twice_fails:
  "initialize c2 (session_run sts (snd (initialize c1 s)))
     = (Inl DuplicateInitialization, session_run sts (snd (initialize c1 s)))"
proof -
  have "GD_OPTIONS (session_run sts (snd (initialize c1 s))) \<noteq> None"
    by (simp add: session_run_GD_OPTIONS initialize_GD_OPTIONS)
  then show ?thesis
    by (simp add: initialize_def)
qed

text \<open>
  C8, at the input where the code departs from it. Right after the synchronous part of
  \<open>initialize\<close> the handler is registered but \<open>resolveInitialize\<close> is still undefined
  (it is assigned only after \<open>await import(sdkUrl)\<close>), and in that state the handler
  throws a \<open>TypeError\<close> on \<open>SDK_READY\<close>.
\<close>

theorem onEvent_ready_before_import_throws:
  "onEvent c ''SDK_READY'' (snd (initialize c (gameDistributionPlugin gid dbg hostname ls h)))
     = Inl TypeError"
  by (simp add: gameDistributionPlugin_def initialize_def onEvent_def)

subsection \<open>Claims about ad requests\<close>

text \<open>
  C1, at the input where the code departs from it. On the initialised page a full-screen
  ad is requested, the SDK reports \<open>SDK_GAME_PAUSE\<close> and then rejects its promise with
  an error that is not the "too soon" string. The request rejects with that error, and
  the host context is left paused and muted: the two setter calls after
  \<open>await Promise.race(...)\<close> are skipped when the \<open>await\<close> throws.
\<close>

theorem safeShowAd_rejection_skips_reset:
  "publicPromise (snd (run [Event ''SDK_GAME_PAUSE'', SdkSettles (Rejects (JObject 0 ''Error: boom''))]
       (showFullScreenAd (Returns None) ready_page)))
     = Rejected (Thrown (JObject 0 ''Error: boom''))
   \<and> needsPause (host (fst (run [Event ''SDK_GAME_PAUSE'', SdkSettles (Rejects (JObject 0 ''Error: boom''))]
       (showFullScreenAd (Returns None) ready_page))) 0)
   \<and> needsMute (host (fst (run [Event ''SDK_GAME_PAUSE'', SdkSettles (Rejects (JObject 0 ''Error: boom''))]
       (showFullScreenAd (Returns None) ready_page))) 0)"
  by (simp add: page_defs handler_defs request_defs Let_def)

text \<open>
  C2. A rewarded ad is requested on a session that has a host context, the SDK returns
  a promise that never settles, and any events other than \<open>IMPRESSION\<close> arrive
  (\<open>SDK_GAME_PAUSE\<close> among them). The timer is armed with 5000 ms; until it fires the
  promise of \<open>showRewardedAd\<close> is pending, and when it fires the promise is fulfilled
  with \<open>{didShowAd: false, errorReason: "unknown"}\<close> and the host context is neither
  paused nor muted.
\<close>

theorem rewarded_timeout_resolves_unknown:
  assumes "pluginContext s = Some c" and "''IMPRESSION'' \<notin> set names"
  shows "timeout_ms (snd (showRewardedAd (Returns None) s)) = 5000
       \<and> publicPromise (snd (run (map Event names) (showRewardedAd (Returns None) s))) = Pending
       \<and> publicPromise (snd (run (map Event names @ [TimerFires]) (showRewardedAd (Returns None) s)))
           = Fulfilled \<lparr> res_didShowAd = False, res_errorReason = Some Unknown \<rparr>
       \<and> \<not> needsPause (host (fst (run (map Event names @ [TimerFires])
                                    (showRewardedAd (Returns None) s))) c)
       \<and> \<not> needsMute (host (fst (run (map Event names @ [TimerFires])
                                   (showRewardedAd (Returns None) s))) c)"
proof -
  obtain s0 where start: "showRewardedAd (Returns None) s = (s0, fresh_request ShowRewardedAd)"
    using showRewardedAd_pending(1) [of s] by (cases "showRewardedAd (Returns None) s") simp
  have s0: "\<not> didShowAd s0" "pluginContext s0 = Some c"
    using showRewardedAd_pending(2,5) [of s] start assms(1) by simp_all
  let ?s1 = "session_run (map Event names) s0"
  have before: "run (map Event names) (s0, fresh_request ShowRewardedAd)
                  = (?s1, fresh_request ShowRewardedAd)"
    by (rule run_events)
  have s1: "\<not> didShowAd ?s1" "pluginContext ?s1 = Some c"
    using s0 assms(2) by (simp_all add: events_without_impression session_run_pluginContext)
  have armed: "timer_armed (fresh_request ShowRewardedAd)"
      "racePromise (fresh_request ShowRewardedAd) = Pending"
    by (simp_all add: fresh_request_def)
  have after: "run (map Event names @ [TimerFires]) (s0, fresh_request ShowRewardedAd)
                 = timer_fires (?s1, fresh_request ShowRewardedAd)"
    by (simp add: run_append before)
  have "timeout_ms (fresh_request ShowRewardedAd) = 5000"
       "publicPromise (fresh_request ShowRewardedAd) = Pending"
    by (simp_all add: fresh_request_def)
  moreover have "publicPromise (snd (timer_fires (?s1, fresh_request ShowRewardedAd)))
                   = Fulfilled \<lparr> res_didShowAd = False, res_errorReason = Some Unknown \<rparr>"
    using timer_fires_open(2) [OF armed s1(1)] by (simp add: unknown_result_def)
  moreover have "\<not> needsPause (host (fst (timer_fires (?s1, fresh_request ShowRewardedAd))) c)"
                "\<not> needsMute (host (fst (timer_fires (?s1, fresh_request ShowRewardedAd))) c)"
    using timer_fires_open(1) [OF armed s1(1)] reset_flags [OF s1(2)] by simp_all
  ultimately show ?thesis
    by (simp add: start before after)
qed

theorem rewarded_timeout_resolves_unknown_witness:
  "pluginContext ready_page = Some 0
   \<and> ''IMPRESSION'' \<notin> set [''SDK_GAME_PAUSE'']
   \<and> publicPromise (snd (run (map Event [''SDK_GAME_PAUSE''] @ [TimerFires])
        (showRewardedAd (Returns None) ready_page)))
       = Fulfilled \<lparr> res_didShowAd = False, res_errorReason = Some Unknown \<rparr>
   \<and> \<not> needsPause (host (fst (run (map Event [''SDK_GAME_PAUSE''] @ [TimerFires])
        (showRewardedAd (Returns None) ready_page))) 0)"
proof -
  have a: "pluginContext ready_page = Some 0"
    by (simp add: page_defs handler_defs)
  have b: "''IMPRESSION'' \<notin> set [''SDK_GAME_PAUSE'']"
    by simp
  show ?thesis
    using a b rewarded_timeout_resolves_unknown [OF a b] by simp
qed

text \<open>
  C5, as amended. For a full-screen or rewarded request, when the SDK's \<open>showAd\<close>
  throws a value \<open>e\<close>:
  if \<open>e\<close> is the string "The advertisement was requested too soon." or an object that
  converts to it, the request resolves with
  \<open>{didShowAd: false, errorReason: "time-constraint"}\<close>;
  if \<open>e\<close> is another string, an object that converts to another string, or a value that
  converts to no string, the request rejects with \<open>e\<close> itself;
  if the comparison of \<open>e\<close> with the string throws \<open>v\<close>, the request rejects with
  \<open>v\<close>.
  When the promise of the SDK rejects with \<open>e\<close> while nothing of the request has settled
  yet, with or without events delivered in the same task, the outcome is the same as for a
  throw of \<open>e\<close>. Once the race has been decided, no stimulus changes the outcome.
\<close>

theorem too_soon_normalised_while_open:
  "publicPromise (snd (start_request who (Throws (JString ''The advertisement was requested too soon.'')) s))
     = Fulfilled \<lparr> res_didShowAd = False, res_errorReason = Some TimeConstraint \<rparr>
   \<and> publicPromise (snd (start_request who (Throws (JObject i ''The advertisement was requested too soon.'')) s))
     = Fulfilled \<lparr> res_didShowAd = False, res_errorReason = Some TimeConstraint \<rparr>
   \<and> (str \<noteq> ''The advertisement was requested too soon.'' \<longrightarrow>
        publicPromise (snd (start_request who (Throws (JString str)) s))
          = Rejected (Thrown (JString str))
        \<and> publicPromise (snd (start_request who (Throws (JObject i str)) s))
          = Rejected (Thrown (JObject i str)))
   \<and> publicPromise (snd (start_request who (Throws (JOther i)) s))
     = Rejected (Thrown (JOther i))
   \<and> publicPromise (snd (start_request who (Throws (JThrowing i v)) s))
     = Rejected (Thrown v)
   \<and> (open_request (snd (run xs (start_request who reply s)))
        \<and> (x = SdkSettles (Rejects e) \<or> x = SdkSettlesThen (Rejects e) names) \<longrightarrow>
        publicPromise (snd (run (xs @ [x]) (start_request who reply s)))
          = publicPromise (snd (start_request who (Throws e) s)))
   \<and> (racePromise (snd (run xs (start_request who reply s))) \<noteq> Pending \<longrightarrow>
        publicPromise (snd (run (xs @ [y]) (start_request who reply s)))
          = publicPromise (snd (run xs (start_request who reply s))))"
proof -
  obtain s1 r1 where before: "run xs (start_request who reply s) = (s1, r1)"
    by (cases "run xs (start_request who reply s)")
  have sync: "publicPromise (snd (start_request who (Throws (JString ''The advertisement was requested too soon.'')) s))
       = Fulfilled \<lparr> res_didShowAd = False, res_errorReason = Some TimeConstraint \<rparr>"
    "publicPromise (snd (start_request who (Throws (JObject i ''The advertisement was requested too soon.'')) s))
       = Fulfilled \<lparr> res_didShowAd = False, res_errorReason = Some TimeConstraint \<rparr>"
    "str \<noteq> ''The advertisement was requested too soon.'' \<longrightarrow>
        publicPromise (snd (start_request who (Throws (JString str)) s))
          = Rejected (Thrown (JString str))
        \<and> publicPromise (snd (start_request who (Throws (JObject i str)) s))
          = Rejected (Thrown (JObject i str))"
    "publicPromise (snd (start_request who (Throws (JOther i)) s))
       = Rejected (Thrown (JOther i))"
    "publicPromise (snd (start_request who (Throws (JThrowing i v)) s))
       = Rejected (Thrown v)"
    by (simp_all add: start_request_throws time_constraint_result_def too_soon_def)
  have async: "open_request r1
        \<and> (x = SdkSettles (Rejects e) \<or> x = SdkSettlesThen (Rejects e) names) \<longrightarrow>
        publicPromise (snd (step x (s1, r1)))
          = publicPromise (snd (start_request who (Throws e) s))"
    using rejection_while_open [of r1 x e names s1] start_request_throws [of who e s]
    by simp
  have late: "racePromise r1 \<noteq> Pending \<longrightarrow>
        publicPromise (snd (step y (s1, r1))) = publicPromise r1"
    using settled_step(3) [of r1 y s1] by simp
  show ?thesis
    using sync async late by (simp add: before run_append)
qed

theorem too_soon_normalised_while_open_witness:
  "''Error: boom'' \<noteq> ''The advertisement was requested too soon.''
   \<and> publicPromise (snd (start_request ShowFullScreenAd (Throws (JObject 0 ''Error: boom''))
        ready_page))
     = Rejected (Thrown (JObject 0 ''Error: boom''))
   \<and> open_request (snd (run [Event ''SDK_GAME_PAUSE'']
       (start_request ShowFullScreenAd (Returns None) ready_page)))
   \<and> publicPromise (snd (run ([Event ''SDK_GAME_PAUSE'']
          @ [SdkSettles (Rejects (JString ''The advertisement was requested too soon.''))])
       (start_request ShowFullScreenAd (Returns None) ready_page)))
     = Fulfilled \<lparr> res_didShowAd = False, res_errorReason = Some TimeConstraint \<rparr>
   \<and> racePromise (snd (run [TimerFires]
       (start_request ShowFullScreenAd (Returns None) ready_page))) \<noteq> Pending
   \<and> publicPromise (snd (run ([TimerFires]
          @ [SdkSettles (Rejects (JString ''The advertisement was requested too soon.''))])
       (start_request ShowFullScreenAd (Returns None) ready_page)))
     = publicPromise (snd (run [TimerFires]
         (start_request ShowFullScreenAd (Returns None) ready_page)))"
proof -
  have a: "''Error: boom'' \<noteq> ''The advertisement was requested too soon.''"
    by simp
  have b: "open_request (snd (run [Event ''SDK_GAME_PAUSE'']
       (start_request ShowFullScreenAd (Returns None) ready_page)))"
    by (simp add: open_request_def start_request_def page_defs handler_defs request_defs Let_def)
  have c: "racePromise (snd (run [TimerFires]
       (start_request ShowFullScreenAd (Returns None) ready_page))) \<noteq> Pending"
    by (simp add: start_request_def page_defs handler_defs request_defs Let_def)
  show ?thesis
    using a b c
      too_soon_normalised_while_open [of ShowFullScreenAd ready_page 0 "''Error: boom''" _
        "[Event ''SDK_GAME_PAUSE'']" "Returns None"
        "SdkSettles (Rejects (JString ''The advertisement was requested too soon.''))"
        "JString ''The advertisement was requested too soon.''"]
      too_soon_normalised_while_open [of ShowFullScreenAd ready_page 0 "''Error: boom''" _
        "[TimerFires]" "Returns None" _ _ _
        "SdkSettles (Rejects (JString ''The advertisement was requested too soon.''))"]
    by simp
qed

text \<open>
  C5 as stated fails in three places. The timer fires with no impression and resolves the
  request with "unknown"; the SDK's promise then rejects with the "too soon" string, and
  the request has not resolved with "time-constraint". A \<open>String\<close> object holding the
  same text is a value other than the literal string, yet a rejection with it is not
  thrown on: the request resolves with "time-constraint". And a rejection with an object
  that cannot be converted to a primitive is not thrown on unchanged either: the request
  rejects with the \<open>TypeError\<close> of the comparison.
\<close>

theorem too_soon_after_timeout_counterexample:
  "publicPromise (snd (run [TimerFires,
        SdkSettles (Rejects (JString ''The advertisement was requested too soon.''))]
      (showFullScreenAd (Returns None) ready_page)))
     = Fulfilled \<lparr> res_didShowAd = False, res_errorReason = Some Unknown \<rparr>
   \<and> JObject 0 ''The advertisement was requested too soon.''
       \<noteq> JString ''The advertisement was requested too soon.''
   \<and> publicPromise (snd (run
        [SdkSettles (Rejects (JObject 0 ''The advertisement was requested too soon.''))]
      (showFullScreenAd (Returns None) ready_page)))
     = Fulfilled \<lparr> res_didShowAd = False, res_errorReason = Some TimeConstraint \<rparr>
   \<and> JThrowing 0 (JObject 1 ''TypeError: Cannot convert object to primitive value'')
       \<noteq> JObject 1 ''TypeError: Cannot convert object to primitive value''
   \<and> publicPromise (snd (run
        [SdkSettles (Rejects
           (JThrowing 0 (JObject 1 ''TypeError: Cannot convert object to primitive value'')))]
      (showFullScreenAd (Returns None) ready_page)))
     = Rejected (Thrown (JObject 1 ''TypeError: Cannot convert object to primitive value''))"
  by (simp add: page_defs handler_defs request_defs Let_def)

text \<open>
  C6. A rewarded ad is requested while the event handler is registered and the SDK
  returns a pending promise; stimuli \<open>xs\<close> arrive, then the SDK settles its promise,
  then anything. Whenever \<open>safeShowAd\<close> has returned null, \<open>showRewardedAd\<close> has
  resolved with \<open>errorReason: null\<close> and with \<open>didShowAd\<close> true exactly if
  \<open>SDK_REWARDED_WATCH_COMPLETE\<close> was among \<open>xs\<close>: the field follows the reward flag,
  whether or not \<open>IMPRESSION\<close> was delivered as well.
\<close>

theorem rewarded_result_keyed_on_reward:
  assumes "GD_OPTIONS s \<noteq> None"
    and "list_all (\<lambda>x. \<not> is_sdk_settle x) xs"
    and "safeShowAdPromise (snd (run (xs @ [SdkSettles st] @ post)
           (showRewardedAd (Returns None) s))) = Fulfilled None"
  shows "publicPromise (snd (run (xs @ [SdkSettles st] @ post)
           (showRewardedAd (Returns None) s)))
         = Fulfilled \<lparr> res_didShowAd = (Event ''SDK_REWARDED_WATCH_COMPLETE'' \<in> set xs),
                       res_errorReason = None \<rparr>"
proof -
  let ?start = "s\<lparr>rewardReceived := False, didShowAd := False,
                   sdk_calls := sdk_calls s @ [ShowAd Rewarded None]\<rparr>"
  have start: "showRewardedAd (Returns None) s = (?start, fresh_request ShowRewardedAd)"
    by (rule showRewardedAd_pending_eq)
  have "publicPromise (snd (run (xs @ [SdkSettles st] @ post) (?start, fresh_request ShowRewardedAd)))
          = Fulfilled (derived_result ShowRewardedAd
              (fst (run (xs @ [SdkSettles st]) (?start, fresh_request ShowRewardedAd))))"
    using null_result_after_settle [OF assms(2), of "SdkSettles st" post ?start ShowRewardedAd]
      assms(3) start
    by simp
  moreover have "rewardReceived (fst (run (xs @ [SdkSettles st]) (showRewardedAd (Returns None) s)))
          = (Event ''SDK_REWARDED_WATCH_COMPLETE'' \<in> set xs)"
    using reward_flag_by_trace [OF assms(1), of "xs @ [SdkSettles st]"]
      delivered_without_settle [OF assms(2), of "''SDK_REWARDED_WATCH_COMPLETE''"]
    by simp
  ultimately show ?thesis
    by (simp add: start)
qed

theorem rewarded_result_keyed_on_reward_witness:
  "GD_OPTIONS ready_page \<noteq> None
   \<and> list_all (\<lambda>x. \<not> is_sdk_settle x) [Event ''SDK_GAME_PAUSE'', Event ''SDK_REWARDED_WATCH_COMPLETE'']
   \<and> safeShowAdPromise (snd (run ([Event ''SDK_GAME_PAUSE'', Event ''SDK_REWARDED_WATCH_COMPLETE'']
          @ [SdkSettles Resolves] @ [])
        (showRewardedAd (Returns None) ready_page))) = Fulfilled None
   \<and> publicPromise (snd (run ([Event ''SDK_GAME_PAUSE'', Event ''SDK_REWARDED_WATCH_COMPLETE'']
          @ [SdkSettles Resolves] @ [])
        (showRewardedAd (Returns None) ready_page)))
       = Fulfilled \<lparr> res_didShowAd = True, res_errorReason = None \<rparr>"
proof -
  have a: "GD_OPTIONS ready_page \<noteq> None"
    by (simp add: page_defs handler_defs)
  have b: "list_all (\<lambda>x. \<not> is_sdk_settle x)
             [Event ''SDK_GAME_PAUSE'', Event ''SDK_REWARDED_WATCH_COMPLETE'']"
    by simp
  have c: "safeShowAdPromise (snd (run ([Event ''SDK_GAME_PAUSE'', Event ''SDK_REWARDED_WATCH_COMPLETE'']
          @ [SdkSettles Resolves] @ [])
        (showRewardedAd (Returns None) ready_page))) = Fulfilled None"
    by (simp add: page_defs handler_defs request_defs Let_def)
  show ?thesis
    using a b c rewarded_result_keyed_on_reward [OF a b c] by simp
qed

text \<open>
  C7. For a full-screen or rewarded request, started with any answer of the SDK and
  followed by any stimuli:
  a non-null value returned by \<open>safeShowAd\<close> has \<open>didShowAd: false\<close> and \<open>errorReason\<close>
  "time-constraint" or "unknown", and the public operation returns that same value;
  when \<open>safeShowAd\<close> returns null at the start, the public operation resolves with
  \<open>{didShowAd: false, errorReason: null}\<close>, both flags having just been cleared;
  when it returns null at a later step, \<open>showFullScreenAd\<close> resolves with
  \<open>errorReason: null\<close> and with \<open>didShowAd\<close> equal to the variable \<open>didShowAd\<close> as it is
  after that step, and \<open>showRewardedAd\<close> likewise with \<open>rewardReceived\<close>;
  and with the handler registered and a pending promise from the SDK, that value is true
  exactly if \<open>IMPRESSION\<close> (for a rewarded ad, \<open>SDK_REWARDED_WATCH_COMPLETE\<close>) was
  delivered between the start and the end of the task in which the SDK settled its
  promise.
\<close>

theorem coordinator_outcomes:
  "(safeShowAdPromise (snd (run xs (start_request who reply s))) = Fulfilled (Some res) \<longrightarrow>
      res_didShowAd res = False
      \<and> (res_errorReason res = Some TimeConstraint \<or> res_errorReason res = Some Unknown)
      \<and> publicPromise (snd (run xs (start_request who reply s))) = Fulfilled res)
   \<and> (safeShowAdPromise (snd (start_request who reply s)) = Fulfilled None \<longrightarrow>
        publicPromise (snd (start_request who reply s))
          = Fulfilled \<lparr> res_didShowAd = False, res_errorReason = None \<rparr>)
   \<and> (safeShowAdPromise (snd (run xs (showFullScreenAd reply s))) = Pending
        \<and> safeShowAdPromise (snd (run (xs @ [x]) (showFullScreenAd reply s))) = Fulfilled None \<longrightarrow>
        publicPromise (snd (run (xs @ [x]) (showFullScreenAd reply s)))
          = Fulfilled \<lparr> res_didShowAd = didShowAd (fst (run (xs @ [x]) (showFullScreenAd reply s))),
                        res_errorReason = None \<rparr>)
   \<and> (safeShowAdPromise (snd (run xs (showRewardedAd reply s))) = Pending
        \<and> safeShowAdPromise (snd (run (xs @ [x]) (showRewardedAd reply s))) = Fulfilled None \<longrightarrow>
        publicPromise (snd (run (xs @ [x]) (showRewardedAd reply s)))
          = Fulfilled \<lparr> res_didShowAd = rewardReceived (fst (run (xs @ [x]) (showRewardedAd reply s))),
                        res_errorReason = None \<rparr>)
   \<and> (GD_OPTIONS s \<noteq> None \<and> list_all (\<lambda>x. \<not> is_sdk_settle x) ys \<and> is_sdk_settle y
        \<and> safeShowAdPromise (snd (run (ys @ [y] @ post) (showFullScreenAd (Returns None) s)))
            = Fulfilled None \<longrightarrow>
        publicPromise (snd (run (ys @ [y] @ post) (showFullScreenAd (Returns None) s)))
          = Fulfilled \<lparr> res_didShowAd = (''IMPRESSION'' \<in> set (concat (map delivered (ys @ [y])))),
                        res_errorReason = None \<rparr>)
   \<and> (GD_OPTIONS s \<noteq> None \<and> list_all (\<lambda>x. \<not> is_sdk_settle x) ys \<and> is_sdk_settle y
        \<and> safeShowAdPromise (snd (run (ys @ [y] @ post) (showRewardedAd (Returns None) s)))
            = Fulfilled None \<longrightarrow>
        publicPromise (snd (run (ys @ [y] @ post) (showRewardedAd (Returns None) s)))
          = Fulfilled \<lparr> res_didShowAd
                          = (''SDK_REWARDED_WATCH_COMPLETE'' \<in> set (concat (map delivered (ys @ [y])))),
                        res_errorReason = None \<rparr>)"
proof -
  obtain s0 r0 where start: "start_request who reply s = (s0, r0)"
    by (cases "start_request who reply s")
  have r0: "request_ok r0"
    using start_request_ok [of who reply s] start by simp
  obtain s1 r1 where before: "run xs (s0, r0) = (s1, r1)"
    by (cases "run xs (s0, r0)")
  have r1: "request_ok r1"
    using run_ok [OF r0, of xs s0] before by simp
  have first: "safeShowAdPromise (snd (run xs (start_request who reply s))) = Fulfilled (Some res) \<longrightarrow>
      res_didShowAd res = False
      \<and> (res_errorReason res = Some TimeConstraint \<or> res_errorReason res = Some Unknown)
      \<and> publicPromise (snd (run xs (start_request who reply s))) = Fulfilled res"
    using request_ok_outcome [OF r1, of res]
    by (auto simp add: start before time_constraint_result_def unknown_result_def)
  have second: "safeShowAdPromise (snd (start_request who reply s)) = Fulfilled None \<longrightarrow>
        publicPromise (snd (start_request who reply s))
          = Fulfilled \<lparr> res_didShowAd = False, res_errorReason = None \<rparr>"
  proof (cases who)
    case ShowFullScreenAd
    then show ?thesis
      using safeShowAd_null [of ShowFullScreenAd Interstitial reply s]
        safeShowAd_start_flags(1) [of ShowFullScreenAd Interstitial reply s]
      by (simp add: start_request_def showFullScreenAd_def)
  next
    case ShowRewardedAd
    then show ?thesis
      using safeShowAd_null [of ShowRewardedAd Rewarded reply "s\<lparr>rewardReceived := False\<rparr>"]
        safeShowAd_start_flags(2) [of ShowRewardedAd Rewarded reply "s\<lparr>rewardReceived := False\<rparr>"]
      by (simp add: start_request_def showRewardedAd_def)
  qed
  have third: "safeShowAdPromise (snd (run xs (showFullScreenAd reply s))) = Pending
        \<and> safeShowAdPromise (snd (run (xs @ [x]) (showFullScreenAd reply s))) = Fulfilled None \<longrightarrow>
        publicPromise (snd (run (xs @ [x]) (showFullScreenAd reply s)))
          = Fulfilled \<lparr> res_didShowAd = didShowAd (fst (run (xs @ [x]) (showFullScreenAd reply s))),
                        res_errorReason = None \<rparr>"
  proof -
    obtain a ra where st: "showFullScreenAd reply s = (a, ra)"
      by (cases "showFullScreenAd reply s")
    obtain b rb where bf: "run xs (a, ra) = (b, rb)"
      by (cases "run xs (a, ra)")
    have "request_ok ra" "caller ra = ShowFullScreenAd"
      using start_request_ok [of ShowFullScreenAd reply s]
        start_request_caller [of ShowFullScreenAd reply s] st
      by (simp_all add: start_request_def)
    from null_step_result [OF this bf, of x] show ?thesis
      by (simp add: st bf)
  qed
  have fourth: "safeShowAdPromise (snd (run xs (showRewardedAd reply s))) = Pending
        \<and> safeShowAdPromise (snd (run (xs @ [x]) (showRewardedAd reply s))) = Fulfilled None \<longrightarrow>
        publicPromise (snd (run (xs @ [x]) (showRewardedAd reply s)))
          = Fulfilled \<lparr> res_didShowAd = rewardReceived (fst (run (xs @ [x]) (showRewardedAd reply s))),
                        res_errorReason = None \<rparr>"
  proof -
    obtain a ra where st: "showRewardedAd reply s = (a, ra)"
      by (cases "showRewardedAd reply s")
    obtain b rb where bf: "run xs (a, ra) = (b, rb)"
      by (cases "run xs (a, ra)")
    have "request_ok ra" "caller ra = ShowRewardedAd"
      using start_request_ok [of ShowRewardedAd reply s]
        start_request_caller [of ShowRewardedAd reply s] st
      by (simp_all add: start_request_def)
    from null_step_result [OF this bf, of x] show ?thesis
      by (simp add: st bf)
  qed
  have fifth: "publicPromise (snd (run (ys @ [y] @ post) (showFullScreenAd (Returns None) s)))
          = Fulfilled \<lparr> res_didShowAd = (''IMPRESSION'' \<in> set (concat (map delivered (ys @ [y])))),
                        res_errorReason = None \<rparr>"
    if "GD_OPTIONS s \<noteq> None" and "list_all (\<lambda>x. \<not> is_sdk_settle x) ys" and "is_sdk_settle y"
      and "safeShowAdPromise (snd (run (ys @ [y] @ post) (showFullScreenAd (Returns None) s)))
            = Fulfilled None"
    using null_result_after_settle [OF that(2,3), of post
        "s\<lparr>didShowAd := False, sdk_calls := sdk_calls s @ [ShowAd Interstitial None]\<rparr>"
        ShowFullScreenAd]
      that(4) impression_flag_by_trace [OF that(1), of "ys @ [y]"]
    by (simp add: showFullScreenAd_pending)
  have sixth: "publicPromise (snd (run (ys @ [y] @ post) (showRewardedAd (Returns None) s)))
          = Fulfilled \<lparr> res_didShowAd
                          = (''SDK_REWARDED_WATCH_COMPLETE'' \<in> set (concat (map delivered (ys @ [y])))),
                        res_errorReason = None \<rparr>"
    if "GD_OPTIONS s \<noteq> None" and "list_all (\<lambda>x. \<not> is_sdk_settle x) ys" and "is_sdk_settle y"
      and "safeShowAdPromise (snd (run (ys @ [y] @ post) (showRewardedAd (Returns None) s)))
            = Fulfilled None"
    using null_result_after_settle [OF that(2,3), of post
        "s\<lparr>rewardReceived := False, didShowAd := False,
           sdk_calls := sdk_calls s @ [ShowAd Rewarded None]\<rparr>"
        ShowRewardedAd]
      that(4) reward_flag_by_trace [OF that(1), of "ys @ [y]"]
    by (simp add: showRewardedAd_pending_eq)
  show ?thesis
    using first second third fourth fifth sixth by blast
qed

theorem coordinator_outcomes_witness:
  "safeShowAdPromise (snd (run [Event ''SDK_GAME_PAUSE'', TimerFires]
       (start_request ShowFullScreenAd (Returns None) ready_page)))
     = Fulfilled (Some \<lparr> res_didShowAd = False, res_errorReason = Some Unknown \<rparr>)
   \<and> publicPromise (snd (run [Event ''SDK_GAME_PAUSE'', TimerFires]
       (start_request ShowFullScreenAd (Returns None) ready_page)))
     = Fulfilled \<lparr> res_didShowAd = False, res_errorReason = Some Unknown \<rparr>
   \<and> safeShowAdPromise (snd (start_request ShowFullScreenAd (Returns (Some Resolves)) ready_page))
     = Fulfilled None
   \<and> publicPromise (snd (start_request ShowFullScreenAd (Returns (Some Resolves)) ready_page))
     = Fulfilled \<lparr> res_didShowAd = False, res_errorReason = None \<rparr>
   \<and> safeShowAdPromise (snd (run [Event ''IMPRESSION''] (showFullScreenAd (Returns None) ready_page)))
     = Pending
   \<and> safeShowAdPromise (snd (run ([Event ''IMPRESSION''] @ [SdkSettles Resolves])
       (showFullScreenAd (Returns None) ready_page))) = Fulfilled None
   \<and> didShowAd (fst (run ([Event ''IMPRESSION''] @ [SdkSettles Resolves])
       (showFullScreenAd (Returns None) ready_page)))
   \<and> publicPromise (snd (run ([Event ''IMPRESSION''] @ [SdkSettles Resolves])
       (showFullScreenAd (Returns None) ready_page)))
     = Fulfilled \<lparr> res_didShowAd = True, res_errorReason = None \<rparr>
   \<and> GD_OPTIONS ready_page \<noteq> None
   \<and> safeShowAdPromise (snd (run ([] @ [SdkSettles Resolves] @ [Event ''IMPRESSION''])
       (showFullScreenAd (Returns None) ready_page))) = Fulfilled None
   \<and> publicPromise (snd (run ([] @ [SdkSettles Resolves] @ [Event ''IMPRESSION''])
       (showFullScreenAd (Returns None) ready_page)))
     = Fulfilled \<lparr> res_didShowAd = False, res_errorReason = None \<rparr>
   \<and> safeShowAdPromise (snd (run ([] @ [SdkSettlesThen Resolves [''IMPRESSION'']] @ [])
       (showFullScreenAd (Returns None) ready_page))) = Fulfilled None
   \<and> publicPromise (snd (run ([] @ [SdkSettlesThen Resolves [''IMPRESSION'']] @ [])
       (showFullScreenAd (Returns None) ready_page)))
     = Fulfilled \<lparr> res_didShowAd = True, res_errorReason = None \<rparr>
   \<and> safeShowAdPromise (snd (run ([Event ''IMPRESSION''] @ [SdkSettles Resolves] @ [])
       (showRewardedAd (Returns None) ready_page))) = Fulfilled None
   \<and> publicPromise (snd (run ([Event ''IMPRESSION''] @ [SdkSettles Resolves] @ [])
       (showRewardedAd (Returns None) ready_page)))
     = Fulfilled \<lparr> res_didShowAd = False, res_errorReason = None \<rparr>"
proof -
  have a: "safeShowAdPromise (snd (run [Event ''SDK_GAME_PAUSE'', TimerFires]
       (start_request ShowFullScreenAd (Returns None) ready_page)))
     = Fulfilled (Some \<lparr> res_didShowAd = False, res_errorReason = Some Unknown \<rparr>)"
    by (simp add: start_request_def page_defs handler_defs request_defs Let_def)
  have b: "safeShowAdPromise (snd (start_request ShowFullScreenAd (Returns (Some Resolves)) ready_page))
     = Fulfilled None"
    by (simp add: start_request_def page_defs handler_defs request_defs Let_def)
  have c: "safeShowAdPromise (snd (run [Event ''IMPRESSION''] (showFullScreenAd (Returns None) ready_page)))
     = Pending
   \<and> safeShowAdPromise (snd (run ([Event ''IMPRESSION''] @ [SdkSettles Resolves])
       (showFullScreenAd (Returns None) ready_page))) = Fulfilled None
   \<and> didShowAd (fst (run ([Event ''IMPRESSION''] @ [SdkSettles Resolves])
       (showFullScreenAd (Returns None) ready_page)))"
    by (simp add: page_defs handler_defs request_defs Let_def)
  have d: "GD_OPTIONS ready_page \<noteq> None"
    by (simp add: page_defs handler_defs)
  have e: "safeShowAdPromise (snd (run ([] @ [SdkSettles Resolves] @ [Event ''IMPRESSION''])
       (showFullScreenAd (Returns None) ready_page))) = Fulfilled None
   \<and> safeShowAdPromise (snd (run ([] @ [SdkSettlesThen Resolves [''IMPRESSION'']] @ [])
       (showFullScreenAd (Returns None) ready_page))) = Fulfilled None
   \<and> safeShowAdPromise (snd (run ([Event ''IMPRESSION''] @ [SdkSettles Resolves] @ [])
       (showRewardedAd (Returns None) ready_page))) = Fulfilled None"
    by (simp add: page_defs handler_defs request_defs Let_def)
  show ?thesis
    using a b c d e
      coordinator_outcomes [where xs = "[Event ''SDK_GAME_PAUSE'', TimerFires]"
        and who = ShowFullScreenAd and reply = "Returns None" and s = ready_page
        and res = "\<lparr> res_didShowAd = False, res_errorReason = Some Unknown \<rparr>"]
      coordinator_outcomes [where xs = "[Event ''IMPRESSION'']" and x = "SdkSettles Resolves"
        and who = ShowFullScreenAd and reply = "Returns (Some Resolves)" and s = ready_page]
      coordinator_outcomes [where xs = "[Event ''IMPRESSION'']" and x = "SdkSettles Resolves"
        and reply = "Returns None" and s = ready_page
        and ys = "[]" and y = "SdkSettles Resolves" and post = "[Event ''IMPRESSION'']"]
      coordinator_outcomes [where s = ready_page
        and ys = "[]" and y = "SdkSettlesThen Resolves [''IMPRESSION'']" and post = "[]"]
      coordinator_outcomes [where s = ready_page
        and ys = "[Event ''IMPRESSION'']" and y = "SdkSettles Resolves" and post = "[]"]
    by simp
qed

text \<open>
  C10. A full-screen or rewarded ad is requested while the event handler is registered
  and the SDK returns a promise that never settles. If \<open>IMPRESSION\<close> is delivered
  before the timer fires, then whatever follows (the timer, further events), the promise
  of the public operation stays pending: the timer's callback does nothing once
  \<open>didShowAd\<close> is set.
\<close>

theorem impression_before_timeout_never_resolves:
  assumes "GD_OPTIONS s \<noteq> None"
    and "list_all (\<lambda>x. x \<noteq> TimerFires \<and> \<not> is_sdk_settle x) pre"
    and "list_all (\<lambda>x. \<not> is_sdk_settle x) post"
  shows "publicPromise (snd (run (pre @ [Event ''IMPRESSION''] @ post)
           (start_request who (Returns None) s))) = Pending"
proof -
  obtain s0 where start: "start_request who (Returns None) s = (s0, fresh_request who)"
    using start_request_pending(1) [of who s]
    by (cases "start_request who (Returns None) s") simp
  have s0: "GD_OPTIONS s0 \<noteq> None"
    using start_request_pending(3) [of who s] start assms(1) by simp
  obtain s1 where pre: "run pre (s0, fresh_request who) = (s1, fresh_request who)"
    using quiet_run [OF assms(2), of s0 "fresh_request who"]
    by (cases "run pre (s0, fresh_request who)") simp
  have s1: "GD_OPTIONS s1 \<noteq> None"
    using run_GD_OPTIONS [of pre s0 "fresh_request who"] pre s0 by simp
  have shown: "didShowAd (deliver ''IMPRESSION'' s1)"
    using s1 by (simp add: deliver_didShowAd)
  have "open_request (fresh_request who)"
    by (simp add: open_request_def fresh_request_def)
  from shown_run [OF shown this assms(3)]
  have "open_request (snd (run post (deliver ''IMPRESSION'' s1, fresh_request who)))" .
  then show ?thesis
    by (simp add: run_append start pre open_request_def)
qed

theorem impression_before_timeout_never_resolves_witness:
  "GD_OPTIONS ready_page \<noteq> None
   \<and> list_all (\<lambda>x. x \<noteq> TimerFires \<and> \<not> is_sdk_settle x) [Event ''SDK_GAME_PAUSE'']
   \<and> list_all (\<lambda>x. \<not> is_sdk_settle x) [TimerFires, Event ''SDK_GAME_START'']
   \<and> publicPromise (snd (run ([Event ''SDK_GAME_PAUSE''] @ [Event ''IMPRESSION'']
          @ [TimerFires, Event ''SDK_GAME_START''])
        (start_request ShowFullScreenAd (Returns None) ready_page))) = Pending"
proof -
  have a: "GD_OPTIONS ready_page \<noteq> None"
    by (simp add: page_defs handler_defs)
  have b: "list_all (\<lambda>x. x \<noteq> TimerFires \<and> \<not> is_sdk_settle x) [Event ''SDK_GAME_PAUSE'']"
    by simp
  have c: "list_all (\<lambda>x. \<not> is_sdk_settle x) [TimerFires, Event ''SDK_GAME_START'']"
    by simp
  show ?thesis
    using a b c impression_before_timeout_never_resolves [OF a b c, of ShowFullScreenAd]
    by simp
qed

subsection \<open>The claim about banners\<close>

text \<open>
  C9. \<open>showBannerAd\<close> makes exactly one call to the SDK, \<open>showAd\<close> with the Display
  type and the given container id; when that call returns, the operation returns
  nothing. It leaves \<open>didShowAd\<close>, \<open>rewardReceived\<close> and the pause and mute flags of
  every host context as they were, and it does not read the two flags: with other
  values in them it does the same and leaves those values in place. It starts no
  request, so there is no timer and no reset of pause and mute.
\<close>

theorem showBannerAd_only_calls_sdk:
  "sdk_calls (snd (showBannerAd containerId reply s))
       = sdk_calls s @ [ShowAd Display (Some containerId)]
   \<and> fst (showBannerAd containerId (Returns x) s) = Inr ()
   \<and> didShowAd (snd (showBannerAd containerId reply s)) = didShowAd s
   \<and> rewardReceived (snd (showBannerAd containerId reply s)) = rewardReceived s
   \<and> host (snd (showBannerAd containerId reply s)) = host s
   \<and> showBannerAd containerId reply (s\<lparr>didShowAd := a, rewardReceived := b\<rparr>)
       = (fst (showBannerAd containerId reply s),
          (snd (showBannerAd containerId reply s))\<lparr>didShowAd := a, rewardReceived := b\<rparr>)"
  by (cases reply) (simp_all add: showBannerAd_def)

end
